theory Spec2Isabelle
  imports Main "HOL-Library.Multiset"
begin

section \<open>stampt: timestamped markdown notes\<close>

text \<open>
  A shallow embedding of \<^verbatim>\<open>stampt.py\<close>: the timestamp codec (\<^verbatim>\<open>_now_ts\<close>,
  \<^verbatim>\<open>_parse_ts\<close>), the note store (\<^verbatim>\<open>_free_filename\<close>, \<^verbatim>\<open>save_note\<close>,
  \<^verbatim>\<open>newest_note\<close>, \<^verbatim>\<open>search_notes\<close>) and the multi-line capture part of
  \<^verbatim>\<open>tui_loop\<close> with \<^verbatim>\<open>prompt_blank_line_action\<close>.

  Python identifiers that start with an underscore lose it (\<^verbatim>\<open>_parse_ts\<close> is
  \<open>parse_ts\<close>); names that clash with HOL constants get a suffix.
\<close>

subsection \<open>Text\<close>

text \<open>
  A Python \<^verbatim>\<open>str\<close> is a sequence of code points. The model uses \<open>string\<close>, one
  \<open>char\<close> per code point, so it covers the texts whose code points are below 256.
  On that range \<^verbatim>\<open>str.isspace\<close> holds of the code points listed in \<open>isspace\<close>,
  \<^verbatim>\<open>\d\<close> matches the ten ASCII digits only, and \<^verbatim>\<open>str.lower\<close> moves A-Z and the
  Latin-1 capitals (0xC0-0xDE without the multiplication sign 0xD7) up by 32.
\<close>

definition NL :: char where
  "NL = CHR 0x0A"

definition CR :: char where
  "CR = CHR 0x0D"

definition isspace :: "char \<Rightarrow> bool" where
  "isspace c = ((of_char c :: nat) \<in> {9, 10, 11, 12, 13, 28, 29, 30, 31, 32, 133, 160})"

definition lstrip :: "string \<Rightarrow> string" where
  "lstrip s = dropWhile isspace s"

definition rstrip :: "string \<Rightarrow> string" where
  "rstrip s = rev (dropWhile isspace (rev s))"

definition strip :: "string \<Rightarrow> string" where
  "strip s = rstrip (lstrip s)"

definition lower_char :: "char \<Rightarrow> char" where
  "lower_char c =
     (let n = (of_char c :: nat)
      in if (65 \<le> n \<and> n \<le> 90) \<or> (192 \<le> n \<and> n \<le> 222 \<and> n \<noteq> 215)
         then char_of (n + 32) else c)"

definition lower :: "string \<Rightarrow> string" where
  "lower s = map lower_char s"

text \<open>
  What \<^verbatim>\<open>read_text\<close> makes of the text of a file: it reads in text mode with
  universal newlines, where a carriage return followed by a newline, and a carriage
  return alone, are read as one newline.
\<close>

fun universal_newlines :: "string \<Rightarrow> string" where
  "universal_newlines [] = []"
| "universal_newlines [c] = [if c = CR then NL else c]"
| "universal_newlines (c # d # cs) =
     (if c = CR \<and> d = NL then NL # universal_newlines cs
      else if c = CR then NL # universal_newlines (d # cs)
      else c # universal_newlines (d # cs))"

text \<open>\<^verbatim>\<open>sep.join(lines)\<close>\<close>

fun join :: "string \<Rightarrow> string list \<Rightarrow> string" where
  "join sep [] = []"
| "join sep [l] = l"
| "join sep (l # m # ls) = l @ sep @ join sep (m # ls)"

text \<open>\<^verbatim>\<open>needle in hay\<close>: \<open>needle\<close> occurs as a contiguous block of \<open>hay\<close>.\<close>

fun startswith :: "string \<Rightarrow> string \<Rightarrow> bool" where
  "startswith hay [] = True"
| "startswith [] (n # ns) = False"
| "startswith (h # hs) (n # ns) = (h = n \<and> startswith hs ns)"

fun contains :: "string \<Rightarrow> string \<Rightarrow> bool" where
  "contains [] needle = (needle = [])"
| "contains (h # hs) needle = (startswith (h # hs) needle \<or> contains hs needle)"

text \<open>\<^verbatim>\<open>str(i)\<close> for a non-negative integer: its decimal digits.\<close>

definition digit_char :: "nat \<Rightarrow> char" where
  "digit_char d = char_of (48 + d)"

fun str_nat :: "nat \<Rightarrow> string" where
  "str_nat n = (if n < 10 then [digit_char n] else str_nat (n div 10) @ [digit_char (n mod 10)])"

declare str_nat.simps [simp del]

definition isdigit :: "char \<Rightarrow> bool" where
  "isdigit c = (48 \<le> (of_char c :: nat) \<and> (of_char c :: nat) \<le> 57)"

definition digit_val :: "char \<Rightarrow> nat" where
  "digit_val c = of_char c - 48"

text \<open>\<^verbatim>\<open>int(s)\<close> for a string of decimal digits.\<close>

definition int_of_digits :: "string \<Rightarrow> nat" where
  "int_of_digits s = foldl (\<lambda>a c. 10 * a + digit_val c) 0 s"

subsection \<open>Exceptions\<close>

text \<open>
  The exceptions the program raises or catches. \<open>SystemExit\<close> is \<^verbatim>\<open>sys.exit(1)\<close>.
  \<^verbatim>\<open>PermissionError\<close> is a subclass of \<^verbatim>\<open>OSError\<close>; \<^verbatim>\<open>termios.error\<close> is not, and
  neither is \<^verbatim>\<open>UnicodeEncodeError\<close>, which \<^verbatim>\<open>write_text\<close> raises for a text that has
  no UTF-8 encoding.
\<close>

datatype exn =
    ValueError
  | RuntimeError
  | OSError
  | PermissionError
  | UnicodeDecodeError
  | UnicodeEncodeError
  | EOFError
  | KeyboardInterrupt
  | TermiosError
  | SystemExit

definition is_OSError :: "exn \<Rightarrow> bool" where
  "is_OSError e = (e = OSError \<or> e = PermissionError)"

subsection \<open>Timestamp codec\<close>

text \<open>
  A naive \<^verbatim>\<open>datetime\<close> at second resolution. \<open>fold\<close> is 0 or 1: where the local
  clock is set back and an hour of local time comes twice, 1 marks the second time.
  \<^verbatim>\<open>datetime.now()\<close> sets it, \<^verbatim>\<open>strftime\<close> does not print it, \<^verbatim>\<open>strptime\<close> gives 0 and
  \<^verbatim>\<open>timestamp()\<close> reads it. \<open>valid_datetime\<close> is the range check of the \<^verbatim>\<open>datetime\<close>
  constructor (proleptic Gregorian calendar, years 1 to 9999).
\<close>

record datetime =
  year :: nat
  month :: nat
  day :: nat
  hour :: nat
  minute :: nat
  second :: nat
  fold :: nat

definition is_leap :: "nat \<Rightarrow> bool" where
  "is_leap y = (y mod 4 = 0 \<and> (y mod 100 \<noteq> 0 \<or> y mod 400 = 0))"

definition days_in_month :: "nat \<Rightarrow> nat \<Rightarrow> nat" where
  "days_in_month y m =
     (if m = 2 then (if is_leap y then 29 else 28)
      else if m = 4 \<or> m = 6 \<or> m = 9 \<or> m = 11 then 30 else 31)"

definition valid_datetime :: "datetime \<Rightarrow> bool" where
  "valid_datetime t =
     (1 \<le> year t \<and> year t \<le> 9999 \<and> 1 \<le> month t \<and> month t \<le> 12 \<and>
      1 \<le> day t \<and> day t \<le> days_in_month (year t) (month t) \<and>
      hour t < 24 \<and> minute t < 60 \<and> second t < 60 \<and> fold t \<le> 1)"

text \<open>The two zero-padded digits of \<^verbatim>\<open>%m\<close>, \<^verbatim>\<open>%d\<close>, \<^verbatim>\<open>%H\<close>, \<^verbatim>\<open>%M\<close> and \<^verbatim>\<open>%S\<close>.\<close>

definition digits2 :: "nat \<Rightarrow> string" where
  "digits2 n = [digit_char (n div 10 mod 10), digit_char (n mod 10)]"

text \<open>
  \<^verbatim>\<open>t.strftime("%Y-%m-%d_%H-%M-%S")\<close>; \<^verbatim>\<open>_now_ts()\<close> applies it to \<^verbatim>\<open>datetime.now()\<close>,
  which is the argument \<open>now\<close> here. Python hands \<^verbatim>\<open>%Y\<close> to the C library, and on
  Linux (glibc) the year is printed without padding: the year 999 has three digits.
\<close>

definition strftime :: "datetime \<Rightarrow> string" where
  "strftime t =
     str_nat (year t) @ ''-'' @ digits2 (month t) @ ''-'' @ digits2 (day t) @ ''_'' @
     digits2 (hour t) @ ''-'' @ digits2 (minute t) @ ''-'' @ digits2 (second t)"

definition now_ts :: "datetime \<Rightarrow> string" where
  "now_ts now = strftime now"

text \<open>
  The compiled pattern \<^verbatim>\<open>_TS = (\d{4}-\d{2}-\d{2}_\d{2}-\d{2}-\d{2})\<close> as a list of
  items, and \<^verbatim>\<open>_TS.match(name)\<close>, which matches at the start of the name only and
  gives the matched group.
\<close>

datatype pat = Digit | Lit char

definition TS :: "pat list" where
  "TS = [Digit, Digit, Digit, Digit, Lit CHR ''-'', Digit, Digit, Lit CHR ''-'', Digit, Digit,
         Lit CHR ''_'', Digit, Digit, Lit CHR ''-'', Digit, Digit, Lit CHR ''-'', Digit, Digit]"

fun pat_ok :: "pat \<Rightarrow> char \<Rightarrow> bool" where
  "pat_ok Digit c = isdigit c"
| "pat_ok (Lit l) c = (c = l)"

fun re_match :: "pat list \<Rightarrow> string \<Rightarrow> string option" where
  "re_match [] s = Some []"
| "re_match (p # ps) [] = None"
| "re_match (p # ps) (c # cs) =
     (if pat_ok p c then map_option ((#) c) (re_match ps cs) else None)"

text \<open>
  \<^verbatim>\<open>datetime.strptime(g, "%Y-%m-%d_%H-%M-%S")\<close>. It raises \<^verbatim>\<open>ValueError\<close> when the
  text does not have the format or the fields are not a date and time of the calendar.
  \<open>ts_fields\<close> reads the six numbers at their places in a text of the format; the
  date and time it makes has fold 0.
\<close>

definition ts_fields :: "string \<Rightarrow> datetime" where
  "ts_fields g =
     \<lparr> year = int_of_digits (take 4 g),
       month = int_of_digits (take 2 (drop 5 g)),
       day = int_of_digits (take 2 (drop 8 g)),
       hour = int_of_digits (take 2 (drop 11 g)),
       minute = int_of_digits (take 2 (drop 14 g)),
       second = int_of_digits (take 2 (drop 17 g)),
       fold = 0 \<rparr>"

definition strptime :: "string \<Rightarrow> exn + datetime" where
  "strptime g =
     (if re_match TS g \<noteq> Some g then Inl ValueError
      else if valid_datetime (ts_fields g) then Inr (ts_fields g)
      else Inl ValueError)"

text \<open>
  \<^verbatim>\<open>_parse_ts(name)\<close>. The conversion \<^verbatim>\<open>datetime.timestamp()\<close> of a naive local
  date and time to seconds since the epoch depends on the time zone of the process; it
  is the parameter \<open>timestamp\<close>. Its value \<open>None\<close> stands for the \<^verbatim>\<open>ValueError\<close> that
  \<^verbatim>\<open>timestamp()\<close> raises where the conversion leaves the years 1 to 9999. The call is
  inside the \<^verbatim>\<open>try\<close>, so \<^verbatim>\<open>except ValueError\<close> turns that error, like the one of
  \<^verbatim>\<open>strptime\<close>, into the result \<^verbatim>\<open>None\<close>.
\<close>

definition parse_ts :: "(datetime \<Rightarrow> int option) \<Rightarrow> string \<Rightarrow> int option" where
  "parse_ts timestamp name =
     (case re_match TS name of
        None \<Rightarrow> None
      | Some g \<Rightarrow>
          (case strptime g of
             Inl e \<Rightarrow> None
           | Inr t \<Rightarrow> timestamp t))"

text \<open>
  \<open>timestamp\<close> for a process whose local time zone is UTC. \<open>wall_seconds\<close> counts the
  seconds from 1970-01-01 00:00:00 to the reading of the clock. The conversion of
  CPython also looks at the instant one day earlier when fold is 0, which for a time
  on 0001-01-01 is in the year 0, and one day later when fold is 1, which for a time
  on 9999-12-31 is in the year 10000: there it raises \<^verbatim>\<open>ValueError\<close>.
\<close>

definition days_before_year :: "nat \<Rightarrow> nat" where
  "days_before_year y = (y - 1) * 365 + (y - 1) div 4 - (y - 1) div 100 + (y - 1) div 400"

definition days_before_month :: "nat \<Rightarrow> nat \<Rightarrow> nat" where
  "days_before_month y m = sum_list (map (days_in_month y) [1..<m])"

definition wall_seconds :: "datetime \<Rightarrow> int" where
  "wall_seconds t =
     (int (days_before_year (year t) + days_before_month (year t) (month t) + day t) - 719163) * 86400
     + int (hour t) * 3600 + int (minute t) * 60 + int (second t)"

definition utc_timestamp :: "datetime \<Rightarrow> int option" where
  "utc_timestamp t =
     (if fold t = 0 \<and> year t = 1 \<and> month t = 1 \<and> day t = 1 then None
      else if fold t \<noteq> 0 \<and> year t = 9999 \<and> month t = 12 \<and> day t = 31 then None
      else Some (wall_seconds t))"

text \<open>
  \<open>timestamp\<close> for a process in the time zone America/New_York, for the local times
  from 10 March 2024, 03:00, to 9 March 2025, 02:00. Until 3 November 2024, 02:00, the
  clock is four hours behind UTC; then it is set back to 01:00 and is five hours
  behind. The hour from 01:00 to 02:00 of that day comes twice, and \<open>fold\<close> tells which
  of the two is meant.
\<close>

definition new_york_timestamp :: "datetime \<Rightarrow> int option" where
  "new_york_timestamp t =
     (let w = wall_seconds t
      in Some (if w < 1730595600 then w + 14400
               else if w < 1730599200 then (if fold t = 0 then w + 14400 else w + 18000)
               else w + 18000))"

subsection \<open>Note store\<close>

text \<open>
  The notes directory is flat, so a path is the name of an entry. \<open>entries\<close> lists
  the directory in the order in which the file system enumerates it. A \<open>File\<close> holds
  the text \<^verbatim>\<open>read_text\<close> returns; \<open>Unreadable\<close> is an entry on which \<^verbatim>\<open>read_text\<close>
  raises \<^verbatim>\<open>OSError\<close> or \<^verbatim>\<open>UnicodeDecodeError\<close>. \<open>glob_raises\<close> is the exception, if
  any, that scanning the directory raises. \<open>write_raises\<close> is the exception, if any,
  that \<^verbatim>\<open>write_text\<close> raises, and where: \<open>AtOpen e\<close> when opening the file fails, which
  then is not created or changed; \<open>AtWrite e left\<close> when the file was opened, and so
  created or emptied, and encoding or writing the text fails, which leaves the file
  with the text \<open>left\<close> (the part written before the failure; nothing when the text
  cannot be encoded).
\<close>

datatype node = File string | Unreadable

datatype write_fault = AtOpen exn | AtWrite exn string

record directory =
  entries :: "(string \<times> node) list"
  glob_raises :: "exn option"
  write_raises :: "write_fault option"

text \<open>\<^verbatim>\<open>path.exists()\<close>\<close>

definition exists_path :: "directory \<Rightarrow> string \<Rightarrow> bool" where
  "exists_path d p = (p \<in> set (map fst (entries d)))"

fun put :: "string \<Rightarrow> node \<Rightarrow> (string \<times> node) list \<Rightarrow> (string \<times> node) list" where
  "put p n [] = [(p, n)]"
| "put p n ((q, m) # es) = (if q = p then (p, n) # es else (q, m) # put p n es)"

text \<open>
  \<^verbatim>\<open>p.write_text(content, encoding="utf-8")\<close>: creates the file or replaces its
  content. On a POSIX system the text is written as it is, and reading it back
  translates its newlines. An exception comes with the directory as it is left.
\<close>

definition write_text :: "directory \<Rightarrow> string \<Rightarrow> string \<Rightarrow> (exn \<times> directory) + directory" where
  "write_text d p content =
     (case write_raises d of
        Some (AtOpen e) \<Rightarrow> Inl (e, d)
      | Some (AtWrite e left) \<Rightarrow> Inl (e, d\<lparr>entries := put p (File left) (entries d)\<rparr>)
      | None \<Rightarrow> Inr (d\<lparr>entries := put p (File (universal_newlines content)) (entries d)\<rparr>))"

text \<open>\<^verbatim>\<open>_free_filename(directory, base)\<close>; \<open>probe\<close> is its \<^verbatim>\<open>for i in range(1, 1000)\<close>
  loop, which raises \<^verbatim>\<open>RuntimeError\<close> when it runs out.\<close>

fun probe :: "directory \<Rightarrow> string \<Rightarrow> nat list \<Rightarrow> exn + string" where
  "probe d base [] = Inl RuntimeError"
| "probe d base (i # is) =
     (let cand = base @ ''_v'' @ str_nat i @ ''.md''
      in if \<not> exists_path d cand then Inr cand else probe d base is)"

definition free_filename :: "directory \<Rightarrow> string \<Rightarrow> exn + string" where
  "free_filename d base =
     (let path = base @ ''.md''
      in if \<not> exists_path d path then Inr path else probe d base [1..<1000])"

text \<open>
  \<^verbatim>\<open>save_note(directory, text)\<close> at the clock reading \<open>now\<close>. The result is the
  returned path (\<open>None\<close> for Python's \<^verbatim>\<open>None\<close>) with the directory afterwards, or the
  exception that leaves the function, also with the directory afterwards:
  \<^verbatim>\<open>sys.exit(1)\<close> for an \<^verbatim>\<open>OSError\<close>, and any other exception as it is.
\<close>

definition save_note :: "directory \<Rightarrow> datetime \<Rightarrow> string \<Rightarrow> (exn \<times> directory) + (string option \<times> directory)" where
  "save_note d now text =
     (if text = [] \<or> strip text = [] then Inr (None, d)
      else
        (case free_filename d (now_ts now) of
           Inl e \<Rightarrow> Inl (if is_OSError e then SystemExit else e, d)
         | Inr p \<Rightarrow>
             (case write_text d p (strip text @ [NL]) of
                Inl (e, d') \<Rightarrow> Inl (if is_OSError e then SystemExit else e, d')
              | Inr d' \<Rightarrow> Inr (Some p, d'))))"

text \<open>\<^verbatim>\<open>directory.glob("*.md")\<close>: the entries whose name ends in \<^verbatim>\<open>.md\<close>, in
  enumeration order.\<close>

definition endswith :: "string \<Rightarrow> string \<Rightarrow> bool" where
  "endswith s suffix =
     (length suffix \<le> length s \<and> drop (length s - length suffix) s = suffix)"

definition glob_md :: "directory \<Rightarrow> exn + (string \<times> node) list" where
  "glob_md d =
     (case glob_raises d of
        Some e \<Rightarrow> Inl e
      | None \<Rightarrow> Inr (filter (\<lambda>(f, n). endswith f ''.md'') (entries d)))"

text \<open>\<^verbatim>\<open>[(f, ts) for f, ts in with_ts if ts is not None]\<close>\<close>

definition valid_ts :: "(string \<times> int option) list \<Rightarrow> (string \<times> int) list" where
  "valid_ts with_ts =
     concat (map (\<lambda>(f, ts). case ts of None \<Rightarrow> [] | Some t \<Rightarrow> [(f, t)]) with_ts)"

text \<open>\<^verbatim>\<open>max(xs, key=key)\<close> on a non-empty list \<open>x # xs\<close>: the first element whose key
  is the largest.\<close>

fun max_by :: "('a \<Rightarrow> int) \<Rightarrow> 'a \<Rightarrow> 'a list \<Rightarrow> 'a" where
  "max_by key best [] = best"
| "max_by key best (x # xs) = max_by key (if key best < key x then x else best) xs"

definition newest_note :: "(datetime \<Rightarrow> int option) \<Rightarrow> directory \<Rightarrow> exn + string option" where
  "newest_note timestamp d =
     (case glob_md d of
        Inl e \<Rightarrow> (if is_OSError e then Inr None else Inl e)
      | Inr files \<Rightarrow>
          (let with_ts = map (\<lambda>(f, n). (f, parse_ts timestamp f)) files;
               valid = valid_ts with_ts
           in case valid of
                [] \<Rightarrow> Inr None
              | v # vs \<Rightarrow> Inr (Some (fst (max_by snd v vs)))))"

text \<open>
  \<^verbatim>\<open>search_notes(directory, query)\<close>. \<open>readable_match\<close> is the body of the loop over
  the scanned files: a file that cannot be read is skipped.
  \<^verbatim>\<open>sorted(valid, key=..., reverse=True)\<close> is a stable sort into descending order.
\<close>

fun readable_match :: "string \<Rightarrow> node \<Rightarrow> bool" where
  "readable_match query_lower (File content) = contains (lower content) query_lower"
| "readable_match query_lower Unreadable = False"

definition search_notes :: "(datetime \<Rightarrow> int option) \<Rightarrow> directory \<Rightarrow> string \<Rightarrow> exn + string list" where
  "search_notes timestamp d query =
     (if strip query = [] then Inr []
      else
        (let query_lower = lower query
         in case glob_md d of
              Inl e \<Rightarrow> (if is_OSError e then Inr [] else Inl e)
            | Inr files \<Rightarrow>
                (let matching_files = map fst (filter (\<lambda>(f, n). readable_match query_lower n) files);
                     with_ts = map (\<lambda>f. (f, parse_ts timestamp f)) matching_files;
                     valid = valid_ts with_ts
                 in Inr (map fst (sort_key (\<lambda>x. - snd x) valid)))))"

subsection \<open>Blank-line prompt\<close>

text \<open>
  What the terminal does during one call of \<^verbatim>\<open>prompt_blank_line_action\<close>:
  whether \<^verbatim>\<open>termios\<close> was imported, the outcome of \<^verbatim>\<open>input(...)\<close> in the line-based
  fallback, and for the raw branch the exception, if any, raised by
  \<^verbatim>\<open>termios.tcgetattr\<close>, \<^verbatim>\<open>tty.setraw\<close> and \<^verbatim>\<open>termios.tcsetattr\<close>, and the outcome
  of \<^verbatim>\<open>sys.stdin.read(1)\<close>.
\<close>

datatype action = Enter | CtrlX

record terminal =
  HAS_TERMIOS :: bool
  input_result :: "exn + string"
  tcgetattr_raises :: "exn option"
  setraw_raises :: "exn option"
  read_result :: "exn + string"
  tcsetattr_raises :: "exn option"

text \<open>The \<^verbatim>\<open>try\<close> block of the raw branch, before its handlers.\<close>

definition raw_body :: "terminal \<Rightarrow> exn + action" where
  "raw_body t =
     (case setraw_raises t of
        Some e \<Rightarrow> Inl e
      | None \<Rightarrow>
          (case read_result t of
             Inl e \<Rightarrow> Inl e
           | Inr ch \<Rightarrow> Inr (if ch = [CHR 0x18] then CtrlX else Enter)))"

text \<open>
  \<^verbatim>\<open>prompt_blank_line_action()\<close>. In the raw branch \<^verbatim>\<open>tcgetattr\<close> runs before the
  \<^verbatim>\<open>try\<close>, the handler turns \<^verbatim>\<open>OSError\<close> and \<^verbatim>\<open>termios.error\<close> into \<^verbatim>\<open>"enter"\<close>, and
  the \<^verbatim>\<open>finally\<close> clause runs \<^verbatim>\<open>tcsetattr\<close> last: an exception it raises replaces
  the result.
\<close>

definition prompt_blank_line_action :: "terminal \<Rightarrow> exn + action" where
  "prompt_blank_line_action t =
     (if \<not> HAS_TERMIOS t then
        (case input_result t of
           Inr response \<Rightarrow> Inr (if lower (strip response) = ''x'' then CtrlX else Enter)
         | Inl e \<Rightarrow> (if e = EOFError \<or> e = KeyboardInterrupt then Inr Enter else Inl e))
      else
        (case tcgetattr_raises t of
           Some e \<Rightarrow> Inl e
         | None \<Rightarrow>
             (let handled =
                    (case raw_body t of
                       Inl e \<Rightarrow> (if is_OSError e \<or> e = TermiosError then Inr Enter else Inl e)
                     | Inr a \<Rightarrow> Inr a)
              in case tcsetattr_raises t of
                   Some e \<Rightarrow> Inl e
                 | None \<Rightarrow> handled)))"

subsection \<open>Capture loop\<close>

text \<open>
  One pass of the inner \<^verbatim>\<open>while True\<close> of \<^verbatim>\<open>tui_loop\<close>: the outcome of \<^verbatim>\<open>input()\<close>,
  and the terminal as the prompt finds it if the line is blank. The list of rounds is
  the whole interaction; where it ends, so does the input, and \<^verbatim>\<open>input()\<close> raises
  \<^verbatim>\<open>EOFError\<close>.
\<close>

record round =
  line_in :: "exn + string"
  term_state :: terminal

text \<open>
  How the inner loop is left: by \<^verbatim>\<open>break\<close> (\<open>Done\<close>), through the handler of
  \<^verbatim>\<open>EOFError\<close> and \<^verbatim>\<open>KeyboardInterrupt\<close> (\<open>Stopped\<close>), or by another exception, which
  no handler of the inner \<^verbatim>\<open>try\<close> catches (\<open>Raised\<close>). \<open>Done\<close> and \<open>Stopped\<close> carry
  the lines accumulated so far.
\<close>

datatype collected = Done "string list" | Stopped "string list" | Raised exn

fun collect :: "round list \<Rightarrow> string list \<Rightarrow> collected" where
  "collect [] lines = Stopped lines"
| "collect (r # rs) lines =
     (case line_in r of
        Inl e \<Rightarrow> (if e = EOFError \<or> e = KeyboardInterrupt then Stopped lines else Raised e)
      | Inr line \<Rightarrow>
          (if strip line = [] then
             (case prompt_blank_line_action (term_state r) of
                Inl e \<Rightarrow> (if e = EOFError \<or> e = KeyboardInterrupt then Stopped lines else Raised e)
              | Inr CtrlX \<Rightarrow> collect rs (lines @ [[]])
              | Inr Enter \<Rightarrow> Done lines)
           else collect rs (lines @ [line])))"

text \<open>
  The part of the body of \<^verbatim>\<open>tui_loop\<close> that takes a note: from
  \<^verbatim>\<open>lines: List[str] = []\<close> to the end of the body, for the command line \<open>cmd\<close>
  already read and stripped. The result is the directory afterwards and whether the
  outer loop goes on (\<open>Continue\<close>) or is left (\<open>Break\<close>), or the exception that leaves
  the body.
\<close>

datatype loop_ctl = Continue | Break

definition save_lines :: "directory \<Rightarrow> datetime \<Rightarrow> string list \<Rightarrow> loop_ctl \<Rightarrow> exn + (directory \<times> loop_ctl)" where
  "save_lines d now lines ctl =
     (if lines \<noteq> [] then
        (case save_note d now (join [NL] lines) of
           Inl (e, d') \<Rightarrow> Inl e
         | Inr (saved_path, d') \<Rightarrow> Inr (d', ctl))
      else Inr (d, ctl))"

definition tui_loop_note :: "directory \<Rightarrow> datetime \<Rightarrow> string \<Rightarrow> round list \<Rightarrow> exn + (directory \<times> loop_ctl)" where
  "tui_loop_note d now cmd rounds =
     (let lines = (if cmd \<noteq> [] then [cmd] else [])
      in case collect rounds lines of
           Stopped ls \<Rightarrow> save_lines d now ls Break
         | Raised e \<Rightarrow> Inl e
         | Done ls \<Rightarrow> save_lines d now ls Continue)"

subsection \<open>Names for the statements\<close>

text \<open>
  The names \<^verbatim>\<open>_free_filename\<close> tries, in the order in which it tries them:
  number 0 is \<^verbatim>\<open>base.md\<close>, number \<open>i\<close> from 1 to 999 is \<^verbatim>\<open>base_v<i>.md\<close>.
\<close>

definition candidate :: "string \<Rightarrow> nat \<Rightarrow> string" where
  "candidate base i = (if i = 0 then base @ ''.md'' else base @ ''_v'' @ str_nat i @ ''.md'')"

text \<open>
  \<open>call_after k d base\<close> is the outcome of \<^verbatim>\<open>_free_filename(directory, base)\<close> after \<open>k\<close>
  earlier calls for the same base, the file of each returned name having been created
  (empty) before the next call.
\<close>

fun call_after :: "nat \<Rightarrow> directory \<Rightarrow> string \<Rightarrow> exn + string" where
  "call_after 0 d base = free_filename d base"
| "call_after (Suc k) d base =
     (case free_filename d base of
        Inl e \<Rightarrow> Inl e
      | Inr p \<Rightarrow>
          (case write_text d p [] of
             Inl (e, d') \<Rightarrow> Inl e
           | Inr d' \<Rightarrow> call_after k d' base))"


text \<open>Concrete values for the examples.\<close>

definition ten_o_clock :: datetime where
  "ten_o_clock =
     \<lparr> year = 2024, month = 1, day = 1, hour = 10, minute = 0, second = 0, fold = 0 \<rparr>"

definition eleven_o_clock :: datetime where
  "eleven_o_clock =
     \<lparr> year = 2024, month = 1, day = 1, hour = 11, minute = 0, second = 0, fold = 0 \<rparr>"

text \<open>01:00:00 on 3 November 2024 for the second time, after the clock was set back.\<close>

definition repeated_hour :: datetime where
  "repeated_hour =
     \<lparr> year = 2024, month = 11, day = 3, hour = 1, minute = 0, second = 0, fold = 1 \<rparr>"

definition month_thirteen :: datetime where
  "month_thirteen =
     \<lparr> year = 2024, month = 13, day = 1, hour = 10, minute = 0, second = 0, fold = 0 \<rparr>"

definition year_one :: datetime where
  "year_one =
     \<lparr> year = 1, month = 1, day = 1, hour = 0, minute = 0, second = 0, fold = 0 \<rparr>"

text \<open>The four decimal digits of a number from 1000 to 9999.\<close>

definition digits4 :: "nat \<Rightarrow> string" where
  "digits4 n = [digit_char (n div 1000 mod 10), digit_char (n div 100 mod 10),
                digit_char (n div 10 mod 10), digit_char (n mod 10)]"

definition empty_directory :: directory where
  "empty_directory = \<lparr> entries = [], glob_raises = None, write_raises = None \<rparr>"

definition full_directory :: directory where
  "full_directory =
     \<lparr> entries = map (\<lambda>i. (candidate ''2024-01-01_10-00-00'' i, File ''x'')) [0..<1000],
       glob_raises = None, write_raises = None \<rparr>"

definition two_notes :: directory where
  "two_notes =
     \<lparr> entries = [(''2024-01-01_10-00-00.md'', File ''Alpha''),
                  (''readme.md'', File ''alpha''),
                  (''2024-01-01_11-00-00.md'', File ''beta alpha''),
                  (''2024-01-01_12-00-00.txt'', File ''alpha''),
                  (''2024-01-01_11-00-00_v1.md'', Unreadable)],
       glob_raises = None, write_raises = None \<rparr>"

text \<open>A terminal in raw mode on which every call succeeds and the key \<open>ch\<close> is read.\<close>

definition raw_key :: "string \<Rightarrow> terminal" where
  "raw_key ch =
     \<lparr> HAS_TERMIOS = True, input_result = Inl EOFError, tcgetattr_raises = None,
       setraw_raises = None, read_result = Inr ch, tcsetattr_raises = None \<rparr>"

text \<open>Standard input that is not a terminal (a pipe or a file): \<^verbatim>\<open>termios.tcgetattr\<close>
  raises \<^verbatim>\<open>termios.error\<close>.\<close>

definition not_a_tty :: terminal where
  "not_a_tty =
     \<lparr> HAS_TERMIOS = True, input_result = Inl EOFError, tcgetattr_raises = Some TermiosError,
       setraw_raises = Some TermiosError, read_result = Inr [], tcsetattr_raises = Some TermiosError \<rparr>"

text \<open>A platform without \<^verbatim>\<open>termios\<close>, where the prompt calls \<^verbatim>\<open>input\<close>.\<close>

definition line_prompt :: "exn + string \<Rightarrow> terminal" where
  "line_prompt answer =
     \<lparr> HAS_TERMIOS = False, input_result = answer, tcgetattr_raises = None,
       setraw_raises = None, read_result = Inr [], tcsetattr_raises = None \<rparr>"

text \<open>A round in which \<^verbatim>\<open>input()\<close> returns \<open>line\<close>, on the terminal \<open>t\<close>.\<close>

definition typed :: "string \<Rightarrow> terminal \<Rightarrow> round" where
  "typed line t = \<lparr> line_in = Inr line, term_state = t \<rparr>"

section \<open>Timestamp codec: format and parse\<close>

lemma digit_val_digit_char: "d < 10 \<Longrightarrow> digit_val (digit_char d) = d"
  by (simp add: digit_val_def digit_char_def)

lemma isdigit_digit_char: "d < 10 \<Longrightarrow> isdigit (digit_char d)"
  by (simp add: isdigit_def digit_char_def)

lemma int_of_digits2: "n < 100 \<Longrightarrow> int_of_digits (digits2 n) = n"
  by (simp add: int_of_digits_def digits2_def digit_val_digit_char)

lemma int_of_digits4:
  assumes "n < 10000"
  shows "int_of_digits (digits4 n) = n"
proof -
  from assms have "int_of_digits (digits4 n) =
      1000 * (n div 1000) + 100 * (n div 100 mod 10) + 10 * (n div 10 mod 10) + n mod 10"
    by (simp add: int_of_digits_def digits4_def digit_val_digit_char)
  also have "\<dots> = n"
  proof -
    have h: "n div 100 = n div 10 div 10" "n div 1000 = n div 10 div 10 div 10"
      by (simp_all add: div_mult2_eq)
    have a: "n = 10 * (n div 10) + n mod 10" by simp
    have b: "n div 10 = 10 * (n div 10 div 10) + n div 10 mod 10" by simp
    have c: "n div 10 div 10 = 10 * (n div 10 div 10 div 10) + n div 10 div 10 mod 10" by simp
    show ?thesis unfolding h using a b c by linarith
  qed
  finally show ?thesis .
qed

lemma re_match_iff:
  "re_match ps s = Some g \<longleftrightarrow> (\<exists>rest. s = g @ rest \<and> list_all2 pat_ok ps g)"
proof (induction ps s arbitrary: g rule: re_match.induct)
  case (1 s)
  then show ?case by auto
next
  case (2 p ps)
  then show ?case by (auto simp: list_all2_Cons1)
next
  case (3 p ps c cs)
  then show ?case by (cases g) (auto simp: list_all2_Cons1)
qed

lemma re_match_None_iff:
  "re_match ps s = None \<longleftrightarrow> \<not> (\<exists>g rest. s = g @ rest \<and> list_all2 pat_ok ps g)"
  using re_match_iff [of ps s] by (cases "re_match ps s") auto

lemma re_match_shape: "list_all2 pat_ok ps g \<Longrightarrow> re_match ps (g @ rest) = Some g"
  by (auto simp: re_match_iff)

lemma str_nat_digits4:
  assumes "1000 \<le> n" "n < 10000"
  shows "str_nat n = digits4 n"
proof -
  have h: "n div 100 = n div 10 div 10" "n div 1000 = n div 10 div 10 div 10"
    by (simp_all add: div_mult2_eq)
  from assms have a: "str_nat n = str_nat (n div 10) @ [digit_char (n mod 10)]"
    by (simp add: str_nat.simps [of n])
  from assms have "\<not> n div 10 < 10" by arith
  then have b: "str_nat (n div 10) =
      str_nat (n div 10 div 10) @ [digit_char (n div 10 mod 10)]"
    by (subst str_nat.simps [of "n div 10"]) (simp only: if_False)
  from assms have "\<not> n div 10 div 10 < 10" by arith
  then have c: "str_nat (n div 10 div 10) =
      str_nat (n div 10 div 10 div 10) @ [digit_char (n div 10 div 10 mod 10)]"
    by (subst str_nat.simps [of "n div 10 div 10"]) (simp only: if_False)
  from assms have k: "n div 10 div 10 div 10 < 10" by arith
  then have d: "str_nat (n div 10 div 10 div 10) = [digit_char (n div 10 div 10 div 10)]"
    by (simp add: str_nat.simps [of "n div 10 div 10 div 10"])
  from k show ?thesis
    by (simp add: a b c d digits4_def h)
qed

lemma strftime_four:
  assumes "1000 \<le> year t" "year t \<le> 9999"
  shows "strftime t =
     digits4 (year t) @ ''-'' @ digits2 (month t) @ ''-'' @ digits2 (day t) @ ''_'' @
     digits2 (hour t) @ ''-'' @ digits2 (minute t) @ ''-'' @ digits2 (second t)"
  using assms by (simp add: strftime_def str_nat_digits4)

lemma strftime_shape:
  "1000 \<le> year t \<Longrightarrow> year t \<le> 9999 \<Longrightarrow> list_all2 pat_ok TS (strftime t)"
  by (simp add: TS_def strftime_four digits2_def digits4_def isdigit_digit_char)

lemma strftime_fields:
  assumes "1000 \<le> year t" "year t \<le> 9999"
  shows "take 4 (strftime t) = digits4 (year t)"
    and "take 2 (drop 5 (strftime t)) = digits2 (month t)"
    and "take 2 (drop 8 (strftime t)) = digits2 (day t)"
    and "take 2 (drop 11 (strftime t)) = digits2 (hour t)"
    and "take 2 (drop 14 (strftime t)) = digits2 (minute t)"
    and "take 2 (drop 17 (strftime t)) = digits2 (second t)"
  by (simp_all add: strftime_four [OF assms] digits2_def digits4_def)

lemma days_in_month_le: "days_in_month y m \<le> 31"
  by (simp add: days_in_month_def)

lemma ts_fields_strftime:
  fixes t :: datetime
  assumes "valid_datetime t" "1000 \<le> year t"
  shows "ts_fields (strftime t) = t\<lparr>fold := 0\<rparr>"
proof -
  from assms have y: "1000 \<le> year t" "year t \<le> 9999" by (simp_all add: valid_datetime_def)
  have d: "day t \<le> 31"
    using assms days_in_month_le [of "year t" "month t"] by (simp add: valid_datetime_def)
  from assms d have f: "int_of_digits (digits4 (year t)) = year t"
     "int_of_digits (digits2 (month t)) = month t"
     "int_of_digits (digits2 (day t)) = day t"
     "int_of_digits (digits2 (hour t)) = hour t"
     "int_of_digits (digits2 (minute t)) = minute t"
     "int_of_digits (digits2 (second t)) = second t"
    by (simp_all add: valid_datetime_def int_of_digits2 int_of_digits4)
  show ?thesis
    by (rule datetime.equality) (simp_all add: ts_fields_def strftime_fields [OF y] f)
qed

lemma valid_datetime_fold0: "valid_datetime t \<Longrightarrow> valid_datetime (t\<lparr>fold := 0\<rparr>)"
  by (simp add: valid_datetime_def)

lemma strptime_shape:
  "list_all2 pat_ok TS g \<Longrightarrow>
   strptime g = (if valid_datetime (ts_fields g) then Inr (ts_fields g) else Inl ValueError)"
  using re_match_shape [of TS g "[]"] by (simp add: strptime_def)

lemma parse_ts_shape:
  "list_all2 pat_ok TS g \<Longrightarrow>
   parse_ts timestamp (g @ rest) =
     (if valid_datetime (ts_fields g) then timestamp (ts_fields g) else None)"
  by (simp add: parse_ts_def re_match_shape strptime_shape)

lemma parse_ts_no_match:
  "\<not> (\<exists>g rest. name = g @ rest \<and> list_all2 pat_ok TS g) \<Longrightarrow> parse_ts timestamp name = None"
  using re_match_None_iff [of TS name] by (simp add: parse_ts_def)

lemma parse_ts_strftime:
  fixes t :: datetime
  assumes "valid_datetime t" "1000 \<le> year t"
  shows "parse_ts timestamp (strftime t @ suffix) = timestamp (t\<lparr>fold := 0\<rparr>)"
proof -
  from assms have y: "1000 \<le> year t" "year t \<le> 9999" by (simp_all add: valid_datetime_def)
  show ?thesis
    using assms
    by (simp add: parse_ts_shape [OF strftime_shape [OF y]] ts_fields_strftime
        valid_datetime_fold0)
qed

text \<open>A year of fewer than four digits is printed too short for the pattern.\<close>

lemma parse_ts_short_year:
  assumes "year t < 1000"
  shows "parse_ts timestamp (strftime t @ suffix) = None"
proof -
  consider "year t < 10" | "10 \<le> year t" "year t < 100" | "100 \<le> year t" "year t < 1000"
    using assms by linarith
  then have "re_match TS (strftime t @ suffix) = None"
  proof cases
    case 1
    then have "str_nat (year t) = [digit_char (year t)]"
      by (simp add: str_nat.simps [of "year t"])
    then show ?thesis
      by (simp add: strftime_def TS_def isdigit_def)
  next
    case 2
    then have "str_nat (year t) = str_nat (year t div 10) @ [digit_char (year t mod 10)]"
      by (simp add: str_nat.simps [of "year t"])
    moreover from 2 have "year t div 10 < 10" by arith
    then have "str_nat (year t div 10) = [digit_char (year t div 10)]"
      by (subst str_nat.simps [of "year t div 10"]) (simp only: if_True)
    ultimately show ?thesis
      by (simp add: strftime_def TS_def isdigit_def)
  next
    case 3
    then have "str_nat (year t) = str_nat (year t div 10) @ [digit_char (year t mod 10)]"
      by (simp add: str_nat.simps [of "year t"])
    moreover from 3 have "\<not> year t div 10 < 10" by arith
    then have "str_nat (year t div 10) =
        str_nat (year t div 10 div 10) @ [digit_char (year t div 10 mod 10)]"
      by (subst str_nat.simps [of "year t div 10"]) (simp only: if_False)
    moreover from 3 have "year t div 10 div 10 < 10" by arith
    then have "str_nat (year t div 10 div 10) = [digit_char (year t div 10 div 10)]"
      by (subst str_nat.simps [of "year t div 10 div 10"]) (simp only: if_True)
    ultimately show ?thesis
      by (simp add: strftime_def TS_def isdigit_def)
  qed
  then show ?thesis by (simp add: parse_ts_def)
qed


subsection \<open>The example times\<close>

lemma ten_valid: "valid_datetime ten_o_clock" "1000 \<le> year ten_o_clock"
  by (simp_all add: ten_o_clock_def valid_datetime_def days_in_month_def)

lemma ten_fold: "ten_o_clock\<lparr>fold := 0\<rparr> = ten_o_clock"
  by (simp add: ten_o_clock_def)

lemma ten_now: "now_ts ten_o_clock = ''2024-01-01_10-00-00''"
  by (simp add: ten_o_clock_def now_ts_def strftime_four digits2_def digits4_def digit_char_def
      char_of_def bit_Suc_0_iff)

lemma ten_utc: "utc_timestamp ten_o_clock = Some 1704103200"
  by (simp add: ten_o_clock_def utc_timestamp_def wall_seconds_def days_before_year_def
      days_before_month_def)

lemma repeated_valid: "valid_datetime repeated_hour" "1000 \<le> year repeated_hour"
  by (simp_all add: repeated_hour_def valid_datetime_def days_in_month_def)

lemma repeated_now: "now_ts repeated_hour = ''2024-11-03_01-00-00''"
  by (simp add: repeated_hour_def now_ts_def strftime_four digits2_def digits4_def
      digit_char_def char_of_def bit_Suc_0_iff)

lemma days_before_november: "days_before_month 2024 11 = 305"
  by code_simp

lemma repeated_wall:
  "wall_seconds repeated_hour = 1730595600"
  "wall_seconds (repeated_hour\<lparr>fold := 0\<rparr>) = 1730595600"
  by (simp_all add: repeated_hour_def wall_seconds_def days_before_year_def
      days_before_november)

lemma repeated_new_york:
  "new_york_timestamp repeated_hour = Some 1730613600"
  "new_york_timestamp (repeated_hour\<lparr>fold := 0\<rparr>) = Some 1730610000"
  by (simp_all add: new_york_timestamp_def repeated_wall) (simp_all add: repeated_hour_def)


text \<open>
  Claim C3, amended. For every valid date and time \<open>t\<close> at second resolution whose
  year has four digits, the text \<^verbatim>\<open>_now_ts\<close> makes of \<open>t\<close> has the pattern
  \<^verbatim>\<open>YYYY-MM-DD_HH-MM-SS\<close>, \<^verbatim>\<open>strptime\<close> reads it back as \<open>t\<close> with fold 0, and
  \<^verbatim>\<open>_parse_ts\<close> of it, alone or followed by any suffix, is what \<^verbatim>\<open>timestamp()\<close> gives
  for \<open>t\<close> with fold 0. So parsing the formatted instant gives the same instant when
  \<open>t\<close> has fold 0; for the second occurrence of a repeated local time it gives the
  instant of the first occurrence.
\<close>

theorem parse_format_roundtrip:
  fixes t :: datetime
  assumes "valid_datetime t" and "1000 \<le> year t"
  shows "list_all2 pat_ok TS (now_ts t) \<and>
         strptime (now_ts t) = Inr (t\<lparr>fold := 0\<rparr>) \<and>
         parse_ts timestamp (now_ts t) = timestamp (t\<lparr>fold := 0\<rparr>) \<and>
         parse_ts timestamp (now_ts t @ suffix) = timestamp (t\<lparr>fold := 0\<rparr>) \<and>
         (fold t = 0 \<longrightarrow> parse_ts timestamp (now_ts t) = timestamp t)"
proof -
  from assms have y: "1000 \<le> year t" "year t \<le> 9999" by (simp_all add: valid_datetime_def)
  have s: "list_all2 pat_ok TS (strftime t)" using y by (rule strftime_shape)
  have f: "ts_fields (strftime t) = t\<lparr>fold := 0\<rparr>" using assms by (rule ts_fields_strftime)
  have v: "valid_datetime (t\<lparr>fold := 0\<rparr>)" using assms(1) by (rule valid_datetime_fold0)
  have 1: "strptime (strftime t) = Inr (t\<lparr>fold := 0\<rparr>)"
    using v by (simp add: strptime_shape [OF s] f)
  have p: "parse_ts timestamp (strftime t @ rest) = timestamp (t\<lparr>fold := 0\<rparr>)" for rest
    using assms by (rule parse_ts_strftime)
  from p [of "[]"] have 2: "parse_ts timestamp (strftime t) = timestamp (t\<lparr>fold := 0\<rparr>)"
    by simp
  have 3: "parse_ts timestamp (strftime t) = timestamp t" if "fold t = 0"
  proof -
    from that have "t\<lparr>fold := 0\<rparr> = t" by (cases t) simp
    with 2 show ?thesis by simp
  qed
  from s 1 2 p [of suffix] 3 show ?thesis by (simp add: now_ts_def)
qed

text \<open>
  The claim as it was stated has the same instant for every \<open>t\<close>. In New York, the
  second 01:00:00 of 3 November 2024 is the instant 1730613600; its text is parsed as
  the first 01:00:00, an hour earlier.
\<close>

theorem parse_format_roundtrip_counterexample:
  "valid_datetime repeated_hour \<and>
   new_york_timestamp repeated_hour = Some 1730613600 \<and>
   now_ts repeated_hour = ''2024-11-03_01-00-00'' \<and>
   parse_ts new_york_timestamp (now_ts repeated_hour) = Some 1730610000"
proof -
  have "parse_ts new_york_timestamp (strftime repeated_hour @ []) =
      new_york_timestamp (repeated_hour\<lparr>fold := 0\<rparr>)"
    using repeated_valid by (rule parse_ts_strftime)
  then have "parse_ts new_york_timestamp (now_ts repeated_hour) = Some 1730610000"
    by (simp add: now_ts_def repeated_new_york)
  then show ?thesis
    by (simp add: repeated_valid repeated_new_york repeated_now)
qed

text \<open>The round trip at 2024-01-01 10:00:00 with UTC as the local time zone, and in New
  York at the first 01:00:00 of 3 November 2024.\<close>

theorem parse_format_roundtrip_witness:
  "valid_datetime ten_o_clock \<and>
   now_ts ten_o_clock = ''2024-01-01_10-00-00'' \<and>
   strptime ''2024-01-01_10-00-00'' = Inr ten_o_clock \<and>
   parse_ts utc_timestamp ''2024-01-01_10-00-00'' = Some 1704103200 \<and>
   parse_ts utc_timestamp ''2024-01-01_10-00-00_v1.md'' = Some 1704103200 \<and>
   utc_timestamp ten_o_clock = Some 1704103200 \<and>
   parse_ts new_york_timestamp ''2024-11-03_01-00-00'' =
     new_york_timestamp (repeated_hour\<lparr>fold := 0\<rparr>)"
proof -
  have "fold ten_o_clock = 0" by (simp add: ten_o_clock_def)
  with parse_format_roundtrip [OF ten_valid, of utc_timestamp "''_v1.md''"]
  have "strptime (now_ts ten_o_clock) = Inr (ten_o_clock\<lparr>fold := 0\<rparr>)"
    "parse_ts utc_timestamp (now_ts ten_o_clock) = utc_timestamp ten_o_clock"
    "parse_ts utc_timestamp (now_ts ten_o_clock @ ''_v1.md'') =
       utc_timestamp (ten_o_clock\<lparr>fold := 0\<rparr>)"
    by blast+
  then have a: "strptime ''2024-01-01_10-00-00'' = Inr ten_o_clock"
    "parse_ts utc_timestamp ''2024-01-01_10-00-00'' = Some 1704103200"
    "parse_ts utc_timestamp ''2024-01-01_10-00-00_v1.md'' = Some 1704103200"
    by (simp_all add: ten_now ten_fold ten_utc)
  from parse_format_roundtrip [OF repeated_valid, of new_york_timestamp "[]"]
  have "parse_ts new_york_timestamp (now_ts repeated_hour) =
      new_york_timestamp (repeated_hour\<lparr>fold := 0\<rparr>)"
    by blast
  then have b: "parse_ts new_york_timestamp ''2024-11-03_01-00-00'' =
      new_york_timestamp (repeated_hour\<lparr>fold := 0\<rparr>)"
    by (simp only: repeated_now)
  from a b show ?thesis by (simp add: ten_valid ten_now ten_utc)
qed


lemma example_no_match: "re_match TS ''note_2024-01-01_10-00-00.md'' = None"
  by (simp add: TS_def isdigit_def)

lemma example_shape_month13: "list_all2 pat_ok TS ''2024-13-01_10-00-00''"
  by (simp add: TS_def isdigit_def)

lemma example_shape: "list_all2 pat_ok TS ''2024-01-01_10-00-00''"
  by (simp add: TS_def isdigit_def)

lemma example_shape_year_one: "list_all2 pat_ok TS ''0001-01-01_00-00-00''"
  by (simp add: TS_def isdigit_def)

lemma example_fields_month13: "ts_fields ''2024-13-01_10-00-00'' = month_thirteen"
  by (simp add: month_thirteen_def ts_fields_def int_of_digits_def digit_val_def)

lemma example_fields: "ts_fields ''2024-01-01_10-00-00'' = ten_o_clock"
  by (simp add: ten_o_clock_def ts_fields_def int_of_digits_def digit_val_def)

lemma example_fields_year_one: "ts_fields ''0001-01-01_00-00-00'' = year_one"
  by (simp add: year_one_def ts_fields_def int_of_digits_def digit_val_def)

lemma example_month13_invalid: "\<not> valid_datetime month_thirteen"
  by (simp add: month_thirteen_def valid_datetime_def)

lemma year_one_valid: "valid_datetime year_one"
  by (simp add: year_one_def valid_datetime_def days_in_month_def)

lemma year_one_utc: "utc_timestamp year_one = None"
  by (simp add: year_one_def utc_timestamp_def)


text \<open>
  Claim C6. \<^verbatim>\<open>_parse_ts\<close> looks for the pattern at the start of the name only: a name
  that has no prefix of the pattern's shape gives none, wherever else a timestamp may
  occur in it; a name that starts with a text \<open>g\<close> of that shape gives none when the
  fields of \<open>g\<close> are not a date and time of the calendar, and otherwise what
  \<^verbatim>\<open>timestamp()\<close> gives for those fields (none where it raises \<^verbatim>\<open>ValueError\<close>), whatever
  follows \<open>g\<close>.
\<close>

theorem parse_ts_leading_only:
  "(\<not> (\<exists>g rest. name = g @ rest \<and> list_all2 pat_ok TS g) \<longrightarrow> parse_ts timestamp name = None) \<and>
   (\<forall>g rest. list_all2 pat_ok TS g \<longrightarrow>
      parse_ts timestamp (g @ rest) =
        (if valid_datetime (ts_fields g) then timestamp (ts_fields g) else None))"
  using parse_ts_no_match [of name timestamp] by (simp add: parse_ts_shape)

text \<open>A timestamp that is not at the start, month 13, three suffixes after a valid
  timestamp, and the first day of the year 1, which UTC does not convert.\<close>

theorem parse_ts_leading_only_witness:
  "parse_ts utc_timestamp ''note_2024-01-01_10-00-00.md'' = None \<and>
   list_all2 pat_ok TS ''2024-13-01_10-00-00'' \<and>
   parse_ts utc_timestamp ''2024-13-01_10-00-00.md'' = None \<and>
   list_all2 pat_ok TS ''2024-01-01_10-00-00'' \<and>
   parse_ts utc_timestamp ''2024-01-01_10-00-00.md'' = Some 1704103200 \<and>
   parse_ts utc_timestamp ''2024-01-01_10-00-00_v12.md'' = Some 1704103200 \<and>
   parse_ts utc_timestamp ''2024-01-01_10-00-00 2025-02-02_11-11-11'' = Some 1704103200 \<and>
   list_all2 pat_ok TS ''0001-01-01_00-00-00'' \<and>
   valid_datetime (ts_fields ''0001-01-01_00-00-00'') \<and>
   parse_ts utc_timestamp ''0001-01-01_00-00-00.md'' = None"
proof -
  have n: "\<not> (\<exists>g rest. ''note_2024-01-01_10-00-00.md'' = g @ rest \<and> list_all2 pat_ok TS g)"
    using re_match_None_iff [of TS "''note_2024-01-01_10-00-00.md''"] example_no_match by simp
  note a = parse_ts_leading_only [of "''note_2024-01-01_10-00-00.md''" utc_timestamp]
  from a n have 1: "parse_ts utc_timestamp ''note_2024-01-01_10-00-00.md'' = None" by blast
  from a have r: "list_all2 pat_ok TS g \<Longrightarrow>
      parse_ts utc_timestamp (g @ rest) =
        (if valid_datetime (ts_fields g) then utc_timestamp (ts_fields g) else None)" for g rest
    by blast
  have 2: "parse_ts utc_timestamp (''2024-13-01_10-00-00'' @ ''.md'') = None"
    by (simp only: r [OF example_shape_month13] example_fields_month13 example_month13_invalid if_False)
  have 3: "parse_ts utc_timestamp (''2024-01-01_10-00-00'' @ rest) = Some 1704103200" for rest
    by (simp only: r [OF example_shape] example_fields ten_valid ten_utc if_True)
  have 4: "parse_ts utc_timestamp (''0001-01-01_00-00-00'' @ ''.md'') = None"
    by (simp only: r [OF example_shape_year_one] example_fields_year_one year_one_valid
        year_one_utc if_True)
  from 1 2 3 [of "''.md''"] 3 [of "''_v12.md''"] 3 [of "'' 2025-02-02_11-11-11''"] 4
  show ?thesis
    by (simp add: example_shape_month13 example_shape example_shape_year_one
        example_fields_year_one year_one_valid)
qed

section \<open>Note store: file names\<close>

lemma digit_char_inj: "a < 10 \<Longrightarrow> b < 10 \<Longrightarrow> digit_char a = digit_char b \<Longrightarrow> a = b"
proof -
  assume a: "a < 10" and b: "b < 10" and e: "digit_char a = digit_char b"
  from e have "(of_char (digit_char a) :: nat) = of_char (digit_char b)" by simp
  with a b show "a = b" by (simp add: digit_char_def)
qed

lemma str_nat_nonempty: "str_nat n \<noteq> []"
  by (subst str_nat.simps) simp

lemma str_nat_inj: "str_nat n = str_nat m \<Longrightarrow> n = m"
proof (induction n arbitrary: m rule: less_induct)
  case (less n)
  show ?case
  proof (cases "n < 10")
    case True
    then have n: "str_nat n = [digit_char n]" by (subst str_nat.simps) simp
    show ?thesis
    proof (cases "m < 10")
      case True
      then have "str_nat m = [digit_char m]" by (subst str_nat.simps) simp
      with n less.prems \<open>n < 10\<close> True show ?thesis by (auto dest: digit_char_inj)
    next
      case False
      then have "str_nat m = str_nat (m div 10) @ [digit_char (m mod 10)]"
        by (subst str_nat.simps) simp
      with n less.prems str_nat_nonempty [of "m div 10"] show ?thesis by simp
    qed
  next
    case False
    then have n: "str_nat n = str_nat (n div 10) @ [digit_char (n mod 10)]"
      by (subst str_nat.simps) simp
    show ?thesis
    proof (cases "m < 10")
      case True
      then have "str_nat m = [digit_char m]" by (subst str_nat.simps) simp
      with n less.prems str_nat_nonempty [of "n div 10"] show ?thesis by simp
    next
      case m: False
      then have "str_nat m = str_nat (m div 10) @ [digit_char (m mod 10)]"
        by (subst str_nat.simps) simp
      with n less.prems have e: "str_nat (n div 10) = str_nat (m div 10)"
        and d: "digit_char (n mod 10) = digit_char (m mod 10)" by simp_all
      from False have "n div 10 < n" by simp
      from less.IH [OF this e] have 1: "n div 10 = m div 10" .
      have 2: "n mod 10 = m mod 10"
        by (rule digit_char_inj [OF _ _ d]) simp_all
      from 1 2 show ?thesis by (metis div_mult_mod_eq)
    qed
  qed
qed

lemma candidate_inj: "candidate base i = candidate base j \<Longrightarrow> i = j"
  by (auto simp: candidate_def dest: str_nat_inj split: if_splits)

lemma candidate_0: "candidate base 0 = base @ ''.md''"
  by (simp add: candidate_def)

lemma candidate_pos: "0 < i \<Longrightarrow> candidate base i = base @ ''_v'' @ str_nat i @ ''.md''"
  by (simp add: candidate_def)

lemma probe_find:
  "probe d base is =
     (case List.find (\<lambda>i. \<not> exists_path d (base @ ''_v'' @ str_nat i @ ''.md'')) is of
        None \<Rightarrow> Inl RuntimeError
      | Some i \<Rightarrow> Inr (base @ ''_v'' @ str_nat i @ ''.md''))"
  by (induction "is") (simp_all add: Let_def)

lemma free_filename_first:
  assumes "k < 1000" "\<forall>j<k. exists_path d (candidate base j)" "\<not> exists_path d (candidate base k)"
  shows "free_filename d base = Inr (candidate base k)"
proof (cases "k = 0")
  case True
  with assms show ?thesis by (simp add: free_filename_def candidate_def)
next
  case False
  from assms(2) False have "exists_path d (candidate base 0)" by simp
  then have z: "exists_path d (base @ ''.md'')" by (simp add: candidate_0)
  let ?P = "\<lambda>i. \<not> exists_path d (base @ ''_v'' @ str_nat i @ ''.md'')"
  have P: "?P i = (\<not> exists_path d (candidate base i))" if "0 < i" for i
    using that by (simp add: candidate_def)
  have "List.find ?P [1..<1000] = Some k"
  proof -
    have a: "k - 1 < length [1..<1000]" using assms(1) False by simp
    have n: "[1..<1000] ! j = Suc j" if "j < 999" for j
      using that by simp
    from False have "0 < k" by simp
    from P [OF this] assms(3) have "?P k" by simp
    moreover have "[1..<1000] ! (k - 1) = k" using assms(1) False by (simp add: n)
    ultimately have b: "?P ([1..<1000] ! (k - 1))" by simp
    have c: "\<forall>j<k - 1. \<not> ?P ([1..<1000] ! j)"
    proof (intro allI impI)
      fix j assume j: "j < k - 1"
      then have "Suc j < k" by simp
      with assms(2) have "exists_path d (candidate base (Suc j))" by blast
      moreover from j assms(1) have "[1..<1000] ! j = Suc j" by (simp add: n)
      ultimately show "\<not> ?P ([1..<1000] ! j)" by (simp only: P [of "Suc j"]) simp
    qed
    have e: "k = [1..<1000] ! (k - 1)" using assms(1) False by (simp add: n)
    show ?thesis unfolding find_Some_iff using a b c e by blast
  qed
  with z False show ?thesis
    by (simp add: free_filename_def probe_find candidate_def)
qed

lemma free_filename_full:
  assumes "\<forall>j<1000. exists_path d (candidate base j)"
  shows "free_filename d base = Inl RuntimeError"
proof -
  from assms have "exists_path d (candidate base 0)" by simp
  then have z: "exists_path d (base @ ''.md'')" by (simp add: candidate_0)
  let ?P = "\<lambda>i. \<not> exists_path d (base @ ''_v'' @ str_nat i @ ''.md'')"
  have "\<not> ?P i" if "i \<in> set [1..<1000]" for i
  proof -
    from that have "0 < i" "i < 1000" by simp_all
    with assms have "exists_path d (candidate base i)" by blast
    with \<open>0 < i\<close> show ?thesis by (simp add: candidate_def)
  qed
  then have "List.find ?P [1..<1000] = None"
    unfolding find_None_iff by blast
  with z show ?thesis by (simp add: free_filename_def probe_find)
qed

lemma names_put: "q \<in> fst ` set (put p n es) \<longleftrightarrow> q = p \<or> q \<in> fst ` set es"
  by (induction es) force+

lemma put_new: "p \<notin> fst ` set es \<Longrightarrow> put p n es = es @ [(p, n)]"
  by (induction es) auto


lemma write_text_ok:
  "write_raises d = None \<Longrightarrow>
   write_text d p c = Inr (d\<lparr>entries := put p (File (universal_newlines c)) (entries d)\<rparr>)"
  by (simp add: write_text_def)

lemma write_text_entries:
  assumes "write_text d p c = Inr d'"
  shows "entries d' = put p (File (universal_newlines c)) (entries d)"
    and "write_raises d' = write_raises d"
proof -
  from assms have n: "write_raises d = None"
    by (auto simp: write_text_def split: option.splits write_fault.splits)
  with assms show "entries d' = put p (File (universal_newlines c)) (entries d)"
    and "write_raises d' = write_raises d"
    by (auto simp: write_text_ok)
qed

lemma exists_write_text:
  assumes "write_text d p c = Inr d'"
  shows "exists_path d' q = (q = p \<or> exists_path d q)"
  unfolding exists_path_def set_map write_text_entries(1) [OF assms] by (rule names_put)

lemma write_raises_write_text:
  "write_text d p c = Inr d' \<Longrightarrow> write_raises d' = write_raises d"
  by (rule write_text_entries(2))

lemma call_after_steps:
  assumes "write_raises d = None"
    and "\<forall>j<i. exists_path d (candidate base j)"
    and "\<forall>j. i \<le> j \<and> j < 1000 \<longrightarrow> \<not> exists_path d (candidate base j)"
    and "i \<le> 1000"
  shows "call_after k d base =
           (if i + k < 1000 then Inr (candidate base (i + k)) else Inl RuntimeError)"
  using assms
proof (induction k arbitrary: d i)
  case 0
  then show ?case
    by (cases "i < 1000") (simp_all add: free_filename_first free_filename_full)
next
  case (Suc k)
  show ?case
  proof (cases "i < 1000")
    case True
    with Suc.prems have f: "free_filename d base = Inr (candidate base i)"
      by (simp add: free_filename_first)
    from write_text_ok [OF Suc.prems(1)] obtain d'
      where w: "write_text d (candidate base i) [] = Inr d'" by blast
    have 1: "write_raises d' = None"
      using write_raises_write_text [OF w] Suc.prems(1) by simp
    have 2: "\<forall>j<Suc i. exists_path d' (candidate base j)"
      using Suc.prems(2) by (auto simp: exists_write_text [OF w] less_Suc_eq)
    have 3: "\<forall>j. Suc i \<le> j \<and> j < 1000 \<longrightarrow> \<not> exists_path d' (candidate base j)"
      using Suc.prems(3) by (auto simp: exists_write_text [OF w] dest: candidate_inj)
    from True have 4: "Suc i \<le> 1000" by simp
    from Suc.IH [OF 1 2 3 4] f w show ?thesis by simp
  next
    case False
    with Suc.prems have "i = 1000" by simp
    with Suc.prems have "free_filename d base = Inl RuntimeError"
      by (simp add: free_filename_full)
    with \<open>i = 1000\<close> show ?thesis by simp
  qed
qed

lemma full_directory_taken:
  "j < 1000 \<Longrightarrow> exists_path full_directory (candidate ''2024-01-01_10-00-00'' j)"
  by (auto simp: full_directory_def exists_path_def image_iff comp_def intro!: bexI [of _ j])

lemma empty_directory_free: "\<not> exists_path empty_directory p"
  by (simp add: empty_directory_def exists_path_def)

lemma empty_directory_fields:
  "entries empty_directory = []" "write_raises empty_directory = None"
  by (simp_all add: empty_directory_def)

lemma strip_hello: "strip ''hello'' = ''hello''"
  by (simp add: strip_def lstrip_def rstrip_def isspace_def)

lemma candidate_ten_0: "candidate ''2024-01-01_10-00-00'' 0 = ''2024-01-01_10-00-00.md''"
  by (simp add: candidate_def)

lemma candidate_ten_1: "candidate ''2024-01-01_10-00-00'' 1 = ''2024-01-01_10-00-00_v1.md''"
  by (simp add: candidate_def str_nat.simps digit_char_def char_of_def bit_Suc_0_iff)

lemma candidate_ten_999: "candidate ''2024-01-01_10-00-00'' 999 = ''2024-01-01_10-00-00_v999.md''"
  by (simp add: candidate_def str_nat.simps digit_char_def char_of_def bit_Suc_0_iff)

lemma two_notes_taken: "exists_path two_notes ''2024-01-01_10-00-00.md''"
  by (simp add: two_notes_def exists_path_def)

lemma two_notes_v1_free: "\<not> exists_path two_notes ''2024-01-01_10-00-00_v1.md''"
  by (simp add: two_notes_def exists_path_def)

lemma strip_blank: "strip ''  '' = []"
  by (simp add: strip_def lstrip_def rstrip_def isspace_def)

lemma strip_hello_padded: "strip '' hello '' = ''hello''"
  by (simp add: strip_def lstrip_def rstrip_def isspace_def)


text \<open>
  Claim C2, amended. \<^verbatim>\<open>_free_filename\<close> returns the first name that does not exist
  among \<^verbatim>\<open>base.md\<close>, \<^verbatim>\<open>base_v1.md\<close>, ..., \<^verbatim>\<open>base_v999.md\<close> (candidates 0 to 999,
  tried in this order), and raises the too-many-versions error when all 1000 exist.
  Called again and again for one base, each returned file being created, from a
  directory that has none of these names, the calls number 1 to 1000 return the
  candidates 0 to 999, and call number 1001 is the first to raise the error.
\<close>

theorem free_filename_probing:
  "(k < 1000 \<and> (\<forall>j<k. exists_path d (candidate base j)) \<and> \<not> exists_path d (candidate base k) \<longrightarrow>
      free_filename d base = Inr (candidate base k)) \<and>
   ((\<forall>j<1000. exists_path d (candidate base j)) \<longrightarrow> free_filename d base = Inl RuntimeError) \<and>
   (write_raises d = None \<and> (\<forall>j<1000. \<not> exists_path d (candidate base j)) \<longrightarrow>
      (\<forall>n<1000. call_after n d base = Inr (candidate base n)) \<and>
      call_after 1000 d base = Inl RuntimeError)"
proof (intro conjI impI allI)
  show "free_filename d base = Inr (candidate base k)"
    if "k < 1000 \<and> (\<forall>j<k. exists_path d (candidate base j)) \<and> \<not> exists_path d (candidate base k)"
    using that by (intro free_filename_first) simp_all
  show "free_filename d base = Inl RuntimeError"
    if "\<forall>j<1000. exists_path d (candidate base j)"
    using that by (rule free_filename_full)
  assume h: "write_raises d = None \<and> (\<forall>j<1000. \<not> exists_path d (candidate base j))"
  have s: "call_after n d base = (if 0 + n < 1000 then Inr (candidate base (0 + n)) else Inl RuntimeError)" for n
    using h by (intro call_after_steps) simp_all
  show "call_after n d base = Inr (candidate base n)" if "n < 1000" for n
    using s [of n] that by simp
  show "call_after 1000 d base = Inl RuntimeError"
    using s [of 1000] by simp
qed


text \<open>The claim as it was stated puts the error at call number 1000. That call, made
  after 999 earlier ones, returns \<^verbatim>\<open>base_v999.md\<close>.\<close>

theorem free_filename_thousandth_counterexample:
  "call_after 999 empty_directory ''2024-01-01_10-00-00'' = Inr ''2024-01-01_10-00-00_v999.md''"
proof -
  have "call_after 999 empty_directory ''2024-01-01_10-00-00'' =
      (if 0 + 999 < (1000::nat) then Inr (candidate ''2024-01-01_10-00-00'' (0 + 999)) else Inl RuntimeError)"
    by (rule call_after_steps) (simp_all add: empty_directory_free, simp add: empty_directory_def)
  then show ?thesis by (simp add: candidate_ten_999)
qed


text \<open>The first free name in three directories, and the calls number 1, 2, 1000 and
  1001 from the empty directory.\<close>

theorem free_filename_probing_witness:
  "free_filename empty_directory ''2024-01-01_10-00-00'' = Inr ''2024-01-01_10-00-00.md'' \<and>
   free_filename two_notes ''2024-01-01_10-00-00'' = Inr ''2024-01-01_10-00-00_v1.md'' \<and>
   free_filename full_directory ''2024-01-01_10-00-00'' = Inl RuntimeError \<and>
   call_after 0 empty_directory ''2024-01-01_10-00-00'' = Inr ''2024-01-01_10-00-00.md'' \<and>
   call_after 1 empty_directory ''2024-01-01_10-00-00'' = Inr ''2024-01-01_10-00-00_v1.md'' \<and>
   call_after 999 empty_directory ''2024-01-01_10-00-00'' = Inr ''2024-01-01_10-00-00_v999.md'' \<and>
   call_after 1000 empty_directory ''2024-01-01_10-00-00'' = Inl RuntimeError"
proof -
  let ?b = "''2024-01-01_10-00-00''"
  have 1: "free_filename empty_directory ?b = Inr ''2024-01-01_10-00-00.md''"
    using free_filename_probing [of 0 empty_directory ?b]
    by (simp add: empty_directory_free candidate_ten_0)
  have a2: "\<forall>j<1. exists_path two_notes (candidate ?b j)"
    by (simp add: candidate_ten_0 two_notes_taken)
  have b2: "\<not> exists_path two_notes (candidate ?b 1)"
    by (simp only: candidate_ten_1) (rule two_notes_v1_free)
  from a2 b2 have "(1::nat) < 1000 \<and> (\<forall>j<1. exists_path two_notes (candidate ?b j)) \<and>
      \<not> exists_path two_notes (candidate ?b 1)"
    by simp
  then have "free_filename two_notes ?b = Inr (candidate ?b 1)"
    using free_filename_probing [of 1 two_notes ?b] by blast
  then have 2: "free_filename two_notes ?b = Inr ''2024-01-01_10-00-00_v1.md''"
    by (simp only: candidate_ten_1)
  have 3: "free_filename full_directory ?b = Inl RuntimeError"
    using free_filename_probing [of _ full_directory ?b] full_directory_taken by blast
  have "write_raises empty_directory = None \<and>
      (\<forall>j<1000. \<not> exists_path empty_directory (candidate ?b j))"
    by (simp add: empty_directory_free) (simp add: empty_directory_def)
  with free_filename_probing [of _ empty_directory ?b]
  have c: "(\<forall>n<1000. call_after n empty_directory ?b = Inr (candidate ?b n)) \<and>
      call_after 1000 empty_directory ?b = Inl RuntimeError" by blast
  then have n: "call_after n empty_directory ?b = Inr (candidate ?b n)" if "n < 1000" for n
    using that by blast
  have "call_after 0 empty_directory ?b = Inr (candidate ?b 0)"
      "call_after 1 empty_directory ?b = Inr (candidate ?b 1)"
      "call_after 999 empty_directory ?b = Inr (candidate ?b 999)"
    by (rule n, simp)+
  moreover from c have "call_after 1000 empty_directory ?b = Inl RuntimeError" by blast
  ultimately show ?thesis using 1 2 3
    by (simp only: candidate_ten_0 candidate_ten_1 candidate_ten_999 simp_thms)
qed

section \<open>Note store: saving\<close>


lemma rstrip_prefix: "\<exists>t. s = rstrip s @ t \<and> (\<forall>c\<in>set t. isspace c)"
proof -
  have "rev (takeWhile isspace (rev s) @ dropWhile isspace (rev s)) = s"
    by (simp only: takeWhile_dropWhile_id rev_rev_ident)
  then have "s = rstrip s @ rev (takeWhile isspace (rev s))"
    by (simp only: rev_append rstrip_def)
  moreover have "\<forall>c\<in>set (rev (takeWhile isspace (rev s))). isspace c"
    by (auto dest: set_takeWhileD)
  ultimately show ?thesis by blast
qed

lemma rstrip_last: "rstrip s \<noteq> [] \<Longrightarrow> \<not> isspace (last (rstrip s))"
  using hd_dropWhile [of isspace "rev s"] by (simp add: rstrip_def last_rev)

lemma rstrip_hd: "rstrip s \<noteq> [] \<Longrightarrow> hd (rstrip s) = hd s"
  using rstrip_prefix [of s] by (metis hd_append2)

lemma lstrip_hd: "lstrip s \<noteq> [] \<Longrightarrow> \<not> isspace (hd (lstrip s))"
  using hd_dropWhile [of isspace s] by (simp add: lstrip_def)

lemma rstrip_Nil: "rstrip [] = []"
  by (simp add: rstrip_def)

lemma strip_edges:
  assumes "strip s \<noteq> []"
  shows "\<not> isspace (hd (strip s))" and "\<not> isspace (last (strip s))"
proof -
  from assms have l: "lstrip s \<noteq> []" by (auto simp: strip_def rstrip_Nil)
  from assms have "hd (strip s) = hd (lstrip s)" by (simp add: strip_def rstrip_hd)
  with lstrip_hd [OF l] show "\<not> isspace (hd (strip s))" by simp
  from assms show "\<not> isspace (last (strip s))" by (simp add: strip_def rstrip_last)
qed




lemma strip_clean:
  assumes "s \<noteq> []" "\<not> isspace (hd s)" "\<not> isspace (last s)"
  shows "strip s = s"
proof -
  from assms(1,2) have l: "lstrip s = s" by (cases s) (simp_all add: lstrip_def)
  from assms(1,3) have "dropWhile isspace (rev s) = rev s"
    by (cases "rev s") (simp_all add: last_rev [symmetric] hd_rev)
  then have "rstrip s = s" by (simp add: rstrip_def)
  with l show ?thesis by (simp add: strip_def)
qed






lemma isspace_CR: "isspace CR"
  by (simp add: isspace_def CR_def)

lemma strip_Nil: "strip [] = []"
  by (simp add: strip_def lstrip_def rstrip_def)

lemma universal_newlines_id: "CR \<notin> set s \<Longrightarrow> universal_newlines s = s"
  by (induction s rule: universal_newlines.induct) auto




lemma universal_newlines_snoc:
  "s = [] \<or> last s \<noteq> CR \<Longrightarrow> universal_newlines (s @ [NL]) = universal_newlines s @ [NL]"
  by (induction s rule: universal_newlines.induct) (auto simp: CR_def NL_def split: if_splits)

lemma set_strip: "set (strip s) \<subseteq> set s"
  unfolding strip_def lstrip_def rstrip_def by (auto dest!: set_dropWhileD)

lemma universal_newlines_strip: "CR \<notin> set s \<Longrightarrow> universal_newlines (strip s) = strip s"
  using set_strip [of s] by (intro universal_newlines_id) blast

lemma strip_not_CR:
  assumes "strip s \<noteq> []"
  shows "hd (strip s) \<noteq> CR" and "last (strip s) \<noteq> CR"
  using strip_edges [OF assms] isspace_CR by auto

lemma written_text:
  "strip s \<noteq> [] \<Longrightarrow>
   universal_newlines (strip s @ [NL]) = universal_newlines (strip s) @ [NL]"
  by (rule universal_newlines_snoc) (simp add: strip_not_CR)

lemma save_note_blank: "strip text = [] \<Longrightarrow> save_note d now text = Inr (None, d)"
  by (simp add: save_note_def)

lemma save_note_free:
  assumes "strip text \<noteq> []" "write_raises d = None" "k < 1000"
    and "\<forall>j<k. exists_path d (candidate (now_ts now) j)"
    and "\<not> exists_path d (candidate (now_ts now) k)"
  shows "save_note d now text =
     Inr (Some (candidate (now_ts now) k),
          d\<lparr>entries := entries d @
             [(candidate (now_ts now) k, File (universal_newlines (strip text) @ [NL]))]\<rparr>)"
proof -
  from assms(1) have t: "text \<noteq> []" using strip_Nil by auto
  have f: "free_filename d (now_ts now) = Inr (candidate (now_ts now) k)"
    using assms(3-5) by (rule free_filename_first)
  from assms(5) have "candidate (now_ts now) k \<notin> fst ` set (entries d)"
    by (simp add: exists_path_def)
  then have "put (candidate (now_ts now) k) n (entries d) = entries d @ [(candidate (now_ts now) k, n)]" for n
    by (rule put_new)
  then show ?thesis using assms(1,2) t f written_text [OF assms(1)]
    by (simp add: save_note_def write_text_def)
qed

lemma save_note_full:
  assumes "strip text \<noteq> []" "\<forall>j<1000. exists_path d (candidate (now_ts now) j)"
  shows "save_note d now text = Inl (RuntimeError, d)"
proof -
  from assms(1) have t: "text \<noteq> []" using strip_Nil by auto
  have "free_filename d (now_ts now) = Inl RuntimeError"
    using assms(2) by (rule free_filename_full)
  then show ?thesis using assms(1) t by (simp add: save_note_def is_OSError_def)
qed

lemma save_note_open_error:
  assumes "strip text \<noteq> []" "write_raises d = Some (AtOpen e)" "k < 1000"
    and "\<forall>j<k. exists_path d (candidate (now_ts now) j)"
    and "\<not> exists_path d (candidate (now_ts now) k)"
  shows "save_note d now text = Inl (if is_OSError e then SystemExit else e, d)"
proof -
  from assms(1) have t: "text \<noteq> []" using strip_Nil by auto
  have f: "free_filename d (now_ts now) = Inr (candidate (now_ts now) k)"
    using assms(3-5) by (rule free_filename_first)
  then show ?thesis using assms(1,2) t by (simp add: save_note_def write_text_def)
qed

lemma save_note_write_error:
  assumes "strip text \<noteq> []" "write_raises d = Some (AtWrite e left)" "k < 1000"
    and "\<forall>j<k. exists_path d (candidate (now_ts now) j)"
    and "\<not> exists_path d (candidate (now_ts now) k)"
  shows "save_note d now text =
     Inl (if is_OSError e then SystemExit else e,
          d\<lparr>entries := entries d @ [(candidate (now_ts now) k, File left)]\<rparr>)"
proof -
  from assms(1) have t: "text \<noteq> []" using strip_Nil by auto
  have f: "free_filename d (now_ts now) = Inr (candidate (now_ts now) k)"
    using assms(3-5) by (rule free_filename_first)
  from assms(5) have "candidate (now_ts now) k \<notin> fst ` set (entries d)"
    by (simp add: exists_path_def)
  then have "put (candidate (now_ts now) k) n (entries d) = entries d @ [(candidate (now_ts now) k, n)]" for n
    by (rule put_new)
  then show ?thesis using assms(1,2) t f by (simp add: save_note_def write_text_def)
qed

lemma strip_a_cr_b: "strip [CHR ''a'', CR, CHR ''b''] = [CHR ''a'', CR, CHR ''b'']"
  by (rule strip_clean) (simp_all add: isspace_def)

lemma universal_newlines_a_cr_b:
  "universal_newlines [CHR ''a'', CR, CHR ''b''] = [CHR ''a'', NL, CHR ''b'']"
  by (simp add: CR_def NL_def)


text \<open>
  Claim C1, amended. For a text that is empty after trimming, \<^verbatim>\<open>save_note\<close> returns
  nothing and leaves the directory as it is. For any other text, with the first free
  one of the 1000 candidate names of the current timestamp: when writing raises
  nothing, \<^verbatim>\<open>save_note\<close> returns that name and adds one file of that name, and reading
  the file gives the trimmed text, in which each carriage return, alone or with the
  newline after it, is read as one newline, followed by one newline; this is the
  trimmed text followed by one newline when the text has no carriage return. When all
  1000 names are taken it raises the too-many-versions error and leaves the directory
  as it is. When a name is free and opening the file raises, \<^verbatim>\<open>save_note\<close> exits the
  process for an \<^verbatim>\<open>OSError\<close> and raises any other exception as it is, and the directory
  is as it was; when the file is opened and encoding or writing the text raises, the
  same holds of the exception, and the file is left under that name with what was
  written before.
\<close>

theorem save_note_saved_text:
  "(strip text = [] \<longrightarrow> save_note d now text = Inr (None, d)) \<and>
   (strip text \<noteq> [] \<and> write_raises d = None \<and> k < 1000 \<and>
    (\<forall>j<k. exists_path d (candidate (now_ts now) j)) \<and>
    \<not> exists_path d (candidate (now_ts now) k) \<longrightarrow>
      save_note d now text =
        Inr (Some (candidate (now_ts now) k),
             d\<lparr>entries := entries d @
                [(candidate (now_ts now) k, File (universal_newlines (strip text) @ [NL]))]\<rparr>) \<and>
      (CR \<notin> set text \<longrightarrow> universal_newlines (strip text) = strip text)) \<and>
   (strip text \<noteq> [] \<and> (\<forall>j<1000. exists_path d (candidate (now_ts now) j)) \<longrightarrow>
      save_note d now text = Inl (RuntimeError, d)) \<and>
   (strip text \<noteq> [] \<and> write_raises d = Some (AtOpen e) \<and> k < 1000 \<and>
    (\<forall>j<k. exists_path d (candidate (now_ts now) j)) \<and>
    \<not> exists_path d (candidate (now_ts now) k) \<longrightarrow>
      save_note d now text = Inl (if is_OSError e then SystemExit else e, d)) \<and>
   (strip text \<noteq> [] \<and> write_raises d = Some (AtWrite e left) \<and> k < 1000 \<and>
    (\<forall>j<k. exists_path d (candidate (now_ts now) j)) \<and>
    \<not> exists_path d (candidate (now_ts now) k) \<longrightarrow>
      save_note d now text =
        Inl (if is_OSError e then SystemExit else e,
             d\<lparr>entries := entries d @ [(candidate (now_ts now) k, File left)]\<rparr>))"
proof (intro conjI impI)
  show "save_note d now text = Inr (None, d)" if "strip text = []"
    using that by (rule save_note_blank)
  show "save_note d now text =
        Inr (Some (candidate (now_ts now) k),
             d\<lparr>entries := entries d @
                [(candidate (now_ts now) k, File (universal_newlines (strip text) @ [NL]))]\<rparr>)"
    if "strip text \<noteq> [] \<and> write_raises d = None \<and> k < 1000 \<and>
        (\<forall>j<k. exists_path d (candidate (now_ts now) j)) \<and>
        \<not> exists_path d (candidate (now_ts now) k)"
    using that by (intro save_note_free) simp_all
  show "universal_newlines (strip text) = strip text" if "CR \<notin> set text"
    using that by (rule universal_newlines_strip)
  show "save_note d now text = Inl (RuntimeError, d)"
    if "strip text \<noteq> [] \<and> (\<forall>j<1000. exists_path d (candidate (now_ts now) j))"
    using that by (intro save_note_full) simp_all
  show "save_note d now text = Inl (if is_OSError e then SystemExit else e, d)"
    if "strip text \<noteq> [] \<and> write_raises d = Some (AtOpen e) \<and> k < 1000 \<and>
        (\<forall>j<k. exists_path d (candidate (now_ts now) j)) \<and>
        \<not> exists_path d (candidate (now_ts now) k)"
    using that by (intro save_note_open_error [where k = k]) simp_all
  show "save_note d now text =
        Inl (if is_OSError e then SystemExit else e,
             d\<lparr>entries := entries d @ [(candidate (now_ts now) k, File left)]\<rparr>)"
    if "strip text \<noteq> [] \<and> write_raises d = Some (AtWrite e left) \<and> k < 1000 \<and>
        (\<forall>j<k. exists_path d (candidate (now_ts now) j)) \<and>
        \<not> exists_path d (candidate (now_ts now) k)"
    using that by (intro save_note_write_error) simp_all
qed

text \<open>The claim as it was stated has every non-blank text saved. In a directory where
  the 1000 names of the second are taken, the error is raised, nothing is returned and
  the directory is as it was.\<close>

theorem save_note_saved_text_counterexample:
  "save_note full_directory ten_o_clock ''hello'' = Inl (RuntimeError, full_directory)"
proof -
  have "strip ''hello'' \<noteq> []" by (simp add: strip_hello)
  moreover have "\<forall>j<1000. exists_path full_directory (candidate (now_ts ten_o_clock) j)"
    by (simp add: ten_now full_directory_taken)
  ultimately show ?thesis by (rule save_note_full)
qed

text \<open>A blank text; a text saved under the first free name; a text with a carriage
  return, which is read back as a newline; the full directory; a directory in which no
  file can be created; and a text that cannot be encoded, which leaves an empty file.\<close>

theorem save_note_saved_text_witness:
  "save_note empty_directory ten_o_clock ''  '' = Inr (None, empty_directory) \<and>
   save_note two_notes ten_o_clock '' hello '' =
     Inr (Some ''2024-01-01_10-00-00_v1.md'',
          two_notes\<lparr>entries := entries two_notes @
             [(''2024-01-01_10-00-00_v1.md'', File (''hello'' @ [NL]))]\<rparr>) \<and>
   save_note empty_directory ten_o_clock [CHR ''a'', CR, CHR ''b''] =
     Inr (Some ''2024-01-01_10-00-00.md'',
          empty_directory\<lparr>entries :=
             [(''2024-01-01_10-00-00.md'', File [CHR ''a'', NL, CHR ''b'', NL])]\<rparr>) \<and>
   save_note full_directory ten_o_clock ''hello'' = Inl (RuntimeError, full_directory) \<and>
   save_note (empty_directory\<lparr>write_raises := Some (AtOpen PermissionError)\<rparr>)
       ten_o_clock ''hello'' =
     Inl (SystemExit, empty_directory\<lparr>write_raises := Some (AtOpen PermissionError)\<rparr>) \<and>
   save_note (empty_directory\<lparr>write_raises := Some (AtWrite UnicodeEncodeError [])\<rparr>)
       ten_o_clock ''hello'' =
     Inl (UnicodeEncodeError,
          empty_directory\<lparr>write_raises := Some (AtWrite UnicodeEncodeError []),
                          entries := [(''2024-01-01_10-00-00.md'', File [])]\<rparr>)"
proof -
  have 1: "save_note empty_directory ten_o_clock ''  '' = Inr (None, empty_directory)"
    using save_note_saved_text [of "''  ''" empty_directory ten_o_clock] strip_blank by blast
  have a2: "\<forall>j<1. exists_path two_notes (candidate (now_ts ten_o_clock) j)"
    by (simp add: ten_now candidate_ten_0 two_notes_taken)
  have b2: "\<not> exists_path two_notes (candidate (now_ts ten_o_clock) 1)"
    by (simp only: ten_now candidate_ten_1) (rule two_notes_v1_free)
  have c2: "strip '' hello '' \<noteq> []" "write_raises two_notes = None"
    by (simp_all add: strip_hello_padded two_notes_def)
  from a2 b2 c2 have h2: "strip '' hello '' \<noteq> [] \<and> write_raises two_notes = None \<and> (1::nat) < 1000 \<and>
      (\<forall>j<1. exists_path two_notes (candidate (now_ts ten_o_clock) j)) \<and>
      \<not> exists_path two_notes (candidate (now_ts ten_o_clock) 1)"
    by simp
  have n2: "CR \<notin> set '' hello ''" by (simp add: CR_def)
  have 2: "save_note two_notes ten_o_clock '' hello '' =
     Inr (Some ''2024-01-01_10-00-00_v1.md'',
          two_notes\<lparr>entries := entries two_notes @
             [(''2024-01-01_10-00-00_v1.md'', File (''hello'' @ [NL]))]\<rparr>)"
  proof -
    have "save_note two_notes ten_o_clock '' hello '' =
        Inr (Some (candidate (now_ts ten_o_clock) 1),
             two_notes\<lparr>entries := entries two_notes @
               [(candidate (now_ts ten_o_clock) 1,
                 File (universal_newlines (strip '' hello '') @ [NL]))]\<rparr>)"
      and "universal_newlines (strip '' hello '') = strip '' hello ''"
      using save_note_saved_text [of "'' hello ''" two_notes ten_o_clock 1] h2 n2 by blast+
    then have "save_note two_notes ten_o_clock '' hello '' =
        Inr (Some (candidate (now_ts ten_o_clock) 1),
             two_notes\<lparr>entries := entries two_notes @
               [(candidate (now_ts ten_o_clock) 1, File (strip '' hello '' @ [NL]))]\<rparr>)"
      by (simp only:)
    then show ?thesis by (simp only: ten_now candidate_ten_1 strip_hello_padded)
  qed
  have h3: "strip [CHR ''a'', CR, CHR ''b''] \<noteq> [] \<and> write_raises empty_directory = None \<and>
      (0::nat) < 1000 \<and>
      (\<forall>j<0. exists_path empty_directory (candidate (now_ts ten_o_clock) j)) \<and>
      \<not> exists_path empty_directory (candidate (now_ts ten_o_clock) 0)"
    by (simp add: strip_a_cr_b empty_directory_fields empty_directory_free)
  have 3: "save_note empty_directory ten_o_clock [CHR ''a'', CR, CHR ''b''] =
     Inr (Some ''2024-01-01_10-00-00.md'',
          empty_directory\<lparr>entries :=
             [(''2024-01-01_10-00-00.md'', File [CHR ''a'', NL, CHR ''b'', NL])]\<rparr>)"
  proof -
    have "save_note empty_directory ten_o_clock [CHR ''a'', CR, CHR ''b''] =
        Inr (Some (candidate (now_ts ten_o_clock) 0),
             empty_directory\<lparr>entries := entries empty_directory @
               [(candidate (now_ts ten_o_clock) 0,
                 File (universal_newlines (strip [CHR ''a'', CR, CHR ''b'']) @ [NL]))]\<rparr>)"
      using save_note_saved_text [of "[CHR ''a'', CR, CHR ''b'']" empty_directory ten_o_clock 0] h3
      by blast
    then show ?thesis
      by (simp only: strip_a_cr_b universal_newlines_a_cr_b)
         (simp add: empty_directory_fields ten_now candidate_ten_0)
  qed
  have h4: "strip ''hello'' \<noteq> [] \<and>
      (\<forall>j<1000. exists_path full_directory (candidate (now_ts ten_o_clock) j))"
    by (simp add: strip_hello ten_now full_directory_taken)
  have 4: "save_note full_directory ten_o_clock ''hello'' = Inl (RuntimeError, full_directory)"
    using save_note_saved_text [of "''hello''" full_directory ten_o_clock] h4 by blast
  let ?d = "empty_directory\<lparr>write_raises := Some (AtOpen PermissionError)\<rparr>"
  have h5: "strip ''hello'' \<noteq> [] \<and> write_raises ?d = Some (AtOpen PermissionError) \<and>
      (0::nat) < 1000 \<and>
      (\<forall>j<0. exists_path ?d (candidate (now_ts ten_o_clock) j)) \<and>
      \<not> exists_path ?d (candidate (now_ts ten_o_clock) 0)"
    by (simp add: strip_hello exists_path_def empty_directory_def)
  have "save_note ?d ten_o_clock ''hello'' =
      Inl (if is_OSError PermissionError then SystemExit else PermissionError, ?d)"
    using save_note_saved_text [of "''hello''" ?d ten_o_clock 0 PermissionError] h5 by blast
  then have 5: "save_note ?d ten_o_clock ''hello'' = Inl (SystemExit, ?d)"
    by (simp add: is_OSError_def)
  let ?w = "empty_directory\<lparr>write_raises := Some (AtWrite UnicodeEncodeError [])\<rparr>"
  have h6: "strip ''hello'' \<noteq> [] \<and> write_raises ?w = Some (AtWrite UnicodeEncodeError []) \<and>
      (0::nat) < 1000 \<and>
      (\<forall>j<0. exists_path ?w (candidate (now_ts ten_o_clock) j)) \<and>
      \<not> exists_path ?w (candidate (now_ts ten_o_clock) 0)"
    by (simp add: strip_hello exists_path_def empty_directory_def)
  have "save_note ?w ten_o_clock ''hello'' =
      Inl (if is_OSError UnicodeEncodeError then SystemExit else UnicodeEncodeError,
           ?w\<lparr>entries := entries ?w @ [(candidate (now_ts ten_o_clock) 0, File [])]\<rparr>)"
    using save_note_saved_text [of "''hello''" ?w ten_o_clock 0 UnicodeEncodeError "[]"] h6
    by blast
  then have 6: "save_note ?w ten_o_clock ''hello'' =
      Inl (UnicodeEncodeError,
           empty_directory\<lparr>write_raises := Some (AtWrite UnicodeEncodeError []),
                           entries := [(''2024-01-01_10-00-00.md'', File [])]\<rparr>)"
    by (simp add: is_OSError_def empty_directory_fields ten_now candidate_ten_0)
  from 1 2 3 4 5 6 show ?thesis by blast
qed










section \<open>Note store: newest and search\<close>

lemma set_valid_ts: "(f, t) \<in> set (valid_ts ws) \<longleftrightarrow> (f, Some t) \<in> set ws"
  by (induction ws) (auto simp: valid_ts_def split: option.splits)

lemma valid_ts_Nil_iff: "valid_ts ws = [] \<longleftrightarrow> (\<forall>(f, t) \<in> set ws. t = None)"
  by (induction ws) (auto simp: valid_ts_def split: option.splits)

lemma map_fst_valid_ts:
  "map fst (valid_ts (map (\<lambda>f. (f, P f)) fs)) = filter (\<lambda>f. P f \<noteq> None) fs"
  by (induction fs) (auto simp: valid_ts_def split: option.splits)

lemma max_by_in: "max_by key b xs \<in> set (b # xs)"
  by (induction xs arbitrary: b) auto

lemma max_by_greatest: "x \<in> set (b # xs) \<Longrightarrow> key x \<le> key (max_by key b xs)"
proof (induction xs arbitrary: b x)
  case Nil
  then show ?case by simp
next
  case (Cons y ys)
  let ?b = "if key b < key y then y else b"
  have b: "key b \<le> key (max_by key ?b ys)" "key y \<le> key (max_by key ?b ys)"
    using Cons.IH [of ?b ?b] by (auto split: if_splits)
  from Cons.prems consider "x = b" | "x = y" | "x \<in> set ys" by auto
  then show ?case
  proof cases
    case 1 with b show ?thesis by simp
  next
    case 2 with b show ?thesis by simp
  next
    case 3 then show ?thesis using Cons.IH [of x ?b] by simp
  qed
qed

lemma glob_md_ok:
  "glob_raises d = None \<Longrightarrow> glob_md d = Inr (filter (\<lambda>(f, n). endswith f ''.md'') (entries d))"
  by (simp add: glob_md_def)

lemma newest_note_none:
  assumes "glob_raises d = None"
    and "\<forall>f n. (f, n) \<in> set (entries d) \<and> endswith f ''.md'' \<longrightarrow> parse_ts ts f = None"
  shows "newest_note ts d = Inr None"
proof -
  let ?files = "filter (\<lambda>(f, n). endswith f ''.md'') (entries d)"
  have "valid_ts (map (\<lambda>(f, n). (f, parse_ts ts f)) ?files) = []"
    unfolding valid_ts_Nil_iff using assms(2) by auto
  then show ?thesis using assms(1) by (simp add: newest_note_def glob_md_ok)
qed

lemma newest_note_some:
  assumes "glob_raises d = None"
    and "(f0, n0) \<in> set (entries d)" "endswith f0 ''.md''" "parse_ts ts f0 \<noteq> None"
  shows "\<exists>p t. newest_note ts d = Inr (Some p) \<and> p \<in> fst ` set (entries d) \<and>
           endswith p ''.md'' \<and> parse_ts ts p = Some t \<and>
           (\<forall>f n t'. (f, n) \<in> set (entries d) \<and> endswith f ''.md'' \<and> parse_ts ts f = Some t'
              \<longrightarrow> t' \<le> t)"
proof -
  let ?files = "filter (\<lambda>(f, n). endswith f ''.md'') (entries d)"
  let ?with = "map (\<lambda>(f, n). (f, parse_ts ts f)) ?files"
  let ?valid = "valid_ts ?with"
  have mem: "(f, t) \<in> set ?valid \<longleftrightarrow>
      (\<exists>n. (f, n) \<in> set (entries d)) \<and> endswith f ''.md'' \<and> parse_ts ts f = Some t" for f t
  proof -
    have "(f, Some t) \<in> set ?with \<longleftrightarrow>
        (\<exists>n. (f, n) \<in> set (entries d) \<and> endswith f ''.md'' \<and> parse_ts ts f = Some t)"
      by (auto simp: image_iff)
    then show ?thesis unfolding set_valid_ts by blast
  qed
  from assms(4) obtain t0 where "parse_ts ts f0 = Some t0" by auto
  with assms(2,3) have "(f0, t0) \<in> set ?valid" unfolding mem by blast
  then obtain v vs where v: "?valid = v # vs" by (cases ?valid) auto
  define m where "m = max_by snd v vs"
  have n: "newest_note ts d = Inr (Some (fst m))"
    using assms(1) v by (simp add: newest_note_def glob_md_ok m_def)
  have "m \<in> set ?valid" unfolding v m_def by (rule max_by_in)
  then have "(fst m, snd m) \<in> set ?valid" by simp
  then have 1: "fst m \<in> fst ` set (entries d)" "endswith (fst m) ''.md''"
      "parse_ts ts (fst m) = Some (snd m)"
    unfolding mem by force+
  have 2: "t' \<le> snd m" if "(f, n) \<in> set (entries d)" "endswith f ''.md''"
      "parse_ts ts f = Some t'" for f n t'
  proof -
    from that have "(f, t') \<in> set (v # vs)" unfolding v [symmetric] mem by blast
    from max_by_greatest [OF this, of snd] show ?thesis by (simp add: m_def)
  qed
  from n 1 2 show ?thesis by blast
qed


subsection \<open>The example directory\<close>

lemma eleven_valid: "valid_datetime eleven_o_clock" "1000 \<le> year eleven_o_clock"
  by (simp_all add: eleven_o_clock_def valid_datetime_def days_in_month_def)

lemma eleven_fold: "eleven_o_clock\<lparr>fold := 0\<rparr> = eleven_o_clock"
  by (simp add: eleven_o_clock_def)

lemma eleven_now: "strftime eleven_o_clock = ''2024-01-01_11-00-00''"
  by (simp add: eleven_o_clock_def strftime_four digits2_def digits4_def digit_char_def
      char_of_def bit_Suc_0_iff)

lemma eleven_utc: "utc_timestamp eleven_o_clock = Some 1704106800"
  by (simp add: eleven_o_clock_def utc_timestamp_def wall_seconds_def days_before_year_def
      days_before_month_def)

lemma parse_ten: "parse_ts utc_timestamp ''2024-01-01_10-00-00.md'' = Some 1704103200"
  using parse_ts_strftime [OF ten_valid, of utc_timestamp "''.md''"]
  by (simp add: ten_now [unfolded now_ts_def] ten_utc ten_fold)

lemma parse_eleven: "parse_ts utc_timestamp ''2024-01-01_11-00-00.md'' = Some 1704106800"
  using parse_ts_strftime [OF eleven_valid, of utc_timestamp "''.md''"]
  by (simp add: eleven_now eleven_utc eleven_fold)

lemma parse_eleven_v1: "parse_ts utc_timestamp ''2024-01-01_11-00-00_v1.md'' = Some 1704106800"
  using parse_ts_strftime [OF eleven_valid, of utc_timestamp "''_v1.md''"]
  by (simp add: eleven_now eleven_utc eleven_fold)

lemma parse_readme: "parse_ts utc_timestamp ''readme.md'' = None"
  by (simp add: parse_ts_def TS_def isdigit_def)

lemma two_notes_entries:
  "entries two_notes =
     [(''2024-01-01_10-00-00.md'', File ''Alpha''),
      (''readme.md'', File ''alpha''),
      (''2024-01-01_11-00-00.md'', File ''beta alpha''),
      (''2024-01-01_12-00-00.txt'', File ''alpha''),
      (''2024-01-01_11-00-00_v1.md'', Unreadable)]"
  "glob_raises two_notes = None"
  by (simp_all add: two_notes_def)

lemma two_notes_glob:
  "glob_md two_notes =
     Inr [(''2024-01-01_10-00-00.md'', File ''Alpha''),
          (''readme.md'', File ''alpha''),
          (''2024-01-01_11-00-00.md'', File ''beta alpha''),
          (''2024-01-01_11-00-00_v1.md'', Unreadable)]"
  by (simp add: glob_md_def two_notes_entries endswith_def)

lemma two_notes_newest:
  "newest_note utc_timestamp two_notes = Inr (Some ''2024-01-01_11-00-00.md'')"
  by (simp add: newest_note_def two_notes_glob valid_ts_def parse_ten parse_eleven
      parse_eleven_v1 parse_readme)

lemma empty_newest: "newest_note utc_timestamp empty_directory = Inr None"
  by (simp add: newest_note_def glob_md_def empty_directory_def valid_ts_def)

lemma lower_ALPHA: "lower ''ALPHA'' = ''alpha''"
  by (simp add: lower_def lower_char_def char_of_def bit_Suc_0_iff)

lemma lower_Alpha: "lower ''Alpha'' = ''alpha''"
  by (simp add: lower_def lower_char_def char_of_def bit_Suc_0_iff)

lemma lower_alpha: "lower ''alpha'' = ''alpha''"
  by (simp add: lower_def lower_char_def)

lemma lower_beta_alpha: "lower ''beta alpha'' = ''beta alpha''"
  by (simp add: lower_def lower_char_def)

lemma strip_ALPHA: "strip ''ALPHA'' = ''ALPHA''"
  by (simp add: strip_def lstrip_def rstrip_def isspace_def)

lemma two_notes_search:
  "search_notes utc_timestamp two_notes ''ALPHA'' =
     Inr [''2024-01-01_11-00-00.md'', ''2024-01-01_10-00-00.md'']"
  by (simp add: search_notes_def strip_ALPHA two_notes_glob lower_ALPHA lower_Alpha lower_alpha
      lower_beta_alpha valid_ts_def parse_ten parse_eleven parse_readme)

text \<open>
  Claim C5. For a directory whose scan raises nothing, \<^verbatim>\<open>newest_note\<close> returns none
  when no note file (an entry matching \<^verbatim>\<open>*.md\<close>) has a name with a parsable
  timestamp, which includes the empty directory; otherwise it returns the name of a
  note file whose parsed timestamp is at least that of every note file with a parsable
  name.
\<close>

theorem newest_note_maximal:
  "glob_raises d = None \<longrightarrow>
     ((\<forall>f n. (f, n) \<in> set (entries d) \<and> endswith f ''.md'' \<longrightarrow> parse_ts ts f = None) \<longrightarrow>
        newest_note ts d = Inr None) \<and>
     ((\<exists>f n. (f, n) \<in> set (entries d) \<and> endswith f ''.md'' \<and> parse_ts ts f \<noteq> None) \<longrightarrow>
        (\<exists>p t. newest_note ts d = Inr (Some p) \<and> p \<in> fst ` set (entries d) \<and>
           endswith p ''.md'' \<and> parse_ts ts p = Some t \<and>
           (\<forall>f n t'. (f, n) \<in> set (entries d) \<and> endswith f ''.md'' \<and> parse_ts ts f = Some t'
              \<longrightarrow> t' \<le> t)))"
  using newest_note_none [of d ts] newest_note_some [of d _ _ ts] by blast


text \<open>The empty directory, and the example directory, where two note files carry the
  latest second and the first of them in the listing is returned.\<close>

theorem newest_note_maximal_witness:
  "glob_raises empty_directory = None \<and>
   newest_note utc_timestamp empty_directory = Inr None \<and>
   glob_raises two_notes = None \<and>
   newest_note utc_timestamp two_notes = Inr (Some ''2024-01-01_11-00-00.md'') \<and>
   parse_ts utc_timestamp ''2024-01-01_11-00-00.md'' = Some 1704106800 \<and>
   parse_ts utc_timestamp ''2024-01-01_10-00-00.md'' = Some 1704103200 \<and>
   (1704103200 :: int) \<le> 1704106800"
proof -
  have g0: "glob_raises empty_directory = None" by (simp add: empty_directory_def)
  have "\<forall>f n. (f, n) \<in> set (entries empty_directory) \<and> endswith f ''.md'' \<longrightarrow>
      parse_ts utc_timestamp f = None"
    by (simp add: empty_directory_def)
  with g0 newest_note_maximal [of empty_directory utc_timestamp]
  have 1: "newest_note utc_timestamp empty_directory = Inr None" by blast
  have g: "glob_raises two_notes = None" by (rule two_notes_entries)
  have "(''2024-01-01_10-00-00.md'', File ''Alpha'') \<in> set (entries two_notes) \<and>
      endswith ''2024-01-01_10-00-00.md'' ''.md'' \<and>
      parse_ts utc_timestamp ''2024-01-01_10-00-00.md'' \<noteq> None"
    by (simp add: two_notes_entries endswith_def parse_ten)
  then have "\<exists>f n. (f, n) \<in> set (entries two_notes) \<and> endswith f ''.md'' \<and>
      parse_ts utc_timestamp f \<noteq> None"
    by blast
  with g newest_note_maximal [of two_notes utc_timestamp]
  obtain p t where p: "newest_note utc_timestamp two_notes = Inr (Some p)"
    and t: "parse_ts utc_timestamp p = Some t"
    and m: "\<forall>f n t'. (f, n) \<in> set (entries two_notes) \<and> endswith f ''.md'' \<and>
        parse_ts utc_timestamp f = Some t' \<longrightarrow> t' \<le> t"
    by blast
  from p have pe: "p = ''2024-01-01_11-00-00.md''" by (simp add: two_notes_newest)
  with t have te: "t = 1704106800" by (simp add: parse_eleven)
  have "(''2024-01-01_10-00-00.md'', File ''Alpha'') \<in> set (entries two_notes) \<and>
      endswith ''2024-01-01_10-00-00.md'' ''.md'' \<and>
      parse_ts utc_timestamp ''2024-01-01_10-00-00.md'' = Some 1704103200"
    by (simp add: two_notes_entries endswith_def parse_ten)
  with m have "(1704103200 :: int) \<le> t" by blast
  with 1 g0 g p pe t te show ?thesis by (simp add: parse_ten)
qed

lemma startswith_iff: "startswith hay needle \<longleftrightarrow> (\<exists>post. hay = needle @ post)"
  by (induction hay needle rule: startswith.induct) auto

lemma contains_iff: "contains hay needle \<longleftrightarrow> (\<exists>pre post. hay = pre @ needle @ post)"
proof (induction hay)
  case Nil
  show ?case by auto
next
  case (Cons h hs)
  show ?case
  proof
    assume "contains (h # hs) needle"
    then consider "startswith (h # hs) needle" | "contains hs needle" by auto
    then show "\<exists>pre post. h # hs = pre @ needle @ post"
    proof cases
      case 1
      then obtain post where "h # hs = needle @ post" unfolding startswith_iff by blast
      then have "h # hs = [] @ needle @ post" by simp
      then show ?thesis by blast
    next
      case 2
      with Cons.IH obtain pre post where "hs = pre @ needle @ post" by blast
      then have "h # hs = (h # pre) @ needle @ post" by simp
      then show ?thesis by blast
    qed
  next
    assume "\<exists>pre post. h # hs = pre @ needle @ post"
    then obtain pre post where e: "h # hs = pre @ needle @ post" by blast
    show "contains (h # hs) needle"
    proof (cases pre)
      case Nil
      with e have "startswith (h # hs) needle" unfolding startswith_iff by auto
      then show ?thesis by simp
    next
      case (Cons a pre')
      with e have "hs = pre' @ needle @ post" by simp
      with Cons.IH have "contains hs needle" by blast
      then show ?thesis by simp
    qed
  qed
qed

lemma sorted_names:
  assumes "sorted (map (\<lambda>x. - snd x) xs)"
    and "\<forall>(f, t) \<in> set xs. parse f = Some (t :: int)"
  shows "sorted_wrt (\<lambda>f g. \<exists>a b. parse f = Some a \<and> parse g = Some b \<and> b \<le> a) (map fst xs)"
proof -
  from assms(1) have "sorted_wrt (\<lambda>x y. - snd x \<le> - snd y) xs"
    by (simp add: sorted_map)
  then have "sorted_wrt (\<lambda>x y. \<exists>a b. parse (fst x) = Some a \<and> parse (fst y) = Some b \<and> b \<le> a) xs"
  proof (rule sorted_wrt_mono_rel [rotated])
    fix x y assume "x \<in> set xs" "y \<in> set xs" "- snd x \<le> - snd y"
    with assms(2) show "\<exists>a b. parse (fst x) = Some a \<and> parse (fst y) = Some b \<and> b \<le> a"
      by (cases x; cases y) fastforce
  qed
  then show ?thesis by (simp add: sorted_wrt_map)
qed

lemma search_notes_blank: "strip query = [] \<Longrightarrow> search_notes ts d query = Inr []"
  by (simp add: search_notes_def)

lemma readable_match_case:
  "readable_match q n = (case n of File c \<Rightarrow> contains (lower c) q | Unreadable \<Rightarrow> False)"
  by (cases n) simp_all

lemma matching_parsable:
  "filter (\<lambda>f. parse f \<noteq> None)
     (map fst (filter (\<lambda>(f, n). M n) (filter (\<lambda>(f, n). G f) es))) =
   map fst (filter (\<lambda>(f, n). G f \<and> parse f \<noteq> None \<and> M n) es)"
  by (induction es) auto

lemma search_notes_found:
  assumes "strip query \<noteq> []" "glob_raises d = None"
  shows "\<exists>res. search_notes ts d query = Inr res \<and>
      mset res =
        mset (map fst (filter (\<lambda>(f, n). endswith f ''.md'' \<and> parse_ts ts f \<noteq> None \<and>
            (case n of File c \<Rightarrow> contains (lower c) (lower query) | Unreadable \<Rightarrow> False))
          (entries d))) \<and>
      sorted_wrt (\<lambda>f g. \<exists>a b. parse_ts ts f = Some a \<and> parse_ts ts g = Some b \<and> b \<le> a) res"
proof -
  let ?files = "filter (\<lambda>(f, n). endswith f ''.md'') (entries d)"
  let ?matching = "map fst (filter (\<lambda>(f, n). readable_match (lower query) n) ?files)"
  let ?valid = "valid_ts (map (\<lambda>f. (f, parse_ts ts f)) ?matching)"
  let ?sorted = "sort_key (\<lambda>x. - snd x) ?valid"
  have r: "search_notes ts d query = Inr (map fst ?sorted)"
    using assms by (simp add: search_notes_def glob_md_ok Let_def)
  have "mset (map fst ?sorted) = mset (map fst ?valid)" by simp
  also have "map fst ?valid = filter (\<lambda>f. parse_ts ts f \<noteq> None) ?matching"
    by (rule map_fst_valid_ts)
  also have "\<dots> = map fst (filter (\<lambda>(f, n). endswith f ''.md'' \<and> parse_ts ts f \<noteq> None \<and>
      readable_match (lower query) n) (entries d))"
    by (rule matching_parsable)
  finally have m: "mset (map fst ?sorted) =
      mset (map fst (filter (\<lambda>(f, n). endswith f ''.md'' \<and> parse_ts ts f \<noteq> None \<and>
            (case n of File c \<Rightarrow> contains (lower c) (lower query) | Unreadable \<Rightarrow> False))
          (entries d)))"
    by (simp only: readable_match_case)
  have "sorted (map (\<lambda>x. - snd x) ?sorted)" by (rule sorted_sort_key)
  moreover have "\<forall>(f, t) \<in> set ?sorted. parse_ts ts f = Some t"
    by (auto simp: set_valid_ts)
  ultimately have s: "sorted_wrt (\<lambda>f g. \<exists>a b. parse_ts ts f = Some a \<and> parse_ts ts g = Some b \<and> b \<le> a)
      (map fst ?sorted)"
    by (rule sorted_names)
  from r m s show ?thesis by blast
qed


text \<open>
  Claim C4. \<^verbatim>\<open>search_notes\<close> with a query that is empty after trimming returns the
  empty list, whatever the directory is and whether or not it can be scanned. With any
  other query, for a directory whose scan raises nothing, it returns, each as often as
  the directory lists it, the names of the note files (entries matching \<^verbatim>\<open>*.md\<close>) that
  have a parsable timestamp and a readable content whose lower-case form contains the
  lower-case query; the names are in descending order of parsed timestamp; a name
  without a parsable timestamp is left out even when the content matches. Containment
  is that of a contiguous block.
\<close>

theorem search_notes_matches:
  "(strip query = [] \<longrightarrow> search_notes ts d query = Inr []) \<and>
   (strip query \<noteq> [] \<and> glob_raises d = None \<longrightarrow>
      (\<exists>res. search_notes ts d query = Inr res \<and>
         mset res =
           mset (map fst (filter (\<lambda>(f, n). endswith f ''.md'' \<and> parse_ts ts f \<noteq> None \<and>
               (case n of File c \<Rightarrow> contains (lower c) (lower query) | Unreadable \<Rightarrow> False))
             (entries d))) \<and>
         sorted_wrt (\<lambda>f g. \<exists>a b. parse_ts ts f = Some a \<and> parse_ts ts g = Some b \<and> b \<le> a) res)) \<and>
   (contains hay needle \<longleftrightarrow> (\<exists>pre post. hay = pre @ needle @ post))"
  using search_notes_blank [of query ts d] search_notes_found [of query d ts]
    contains_iff [of hay needle]
  by blast

text \<open>A blank query on a directory that cannot be scanned, and the query \<^verbatim>\<open>ALPHA\<close> on
  the example directory: the note of 11:00 before the note of 10:00, without
  \<^verbatim>\<open>readme.md\<close>, the \<^verbatim>\<open>.txt\<close> file and the unreadable note.\<close>

theorem search_notes_matches_witness:
  "search_notes utc_timestamp (two_notes\<lparr>glob_raises := Some OSError\<rparr>) ''  '' = Inr [] \<and>
   search_notes utc_timestamp two_notes ''ALPHA'' =
     Inr [''2024-01-01_11-00-00.md'', ''2024-01-01_10-00-00.md''] \<and>
   mset [''2024-01-01_11-00-00.md'', ''2024-01-01_10-00-00.md''] =
     mset (map fst (filter (\<lambda>(f, n). endswith f ''.md'' \<and> parse_ts utc_timestamp f \<noteq> None \<and>
        (case n of File c \<Rightarrow> contains (lower c) (lower ''ALPHA'') | Unreadable \<Rightarrow> False))
        (entries two_notes))) \<and>
   sorted_wrt (\<lambda>f g. \<exists>a b. parse_ts utc_timestamp f = Some a \<and>
        parse_ts utc_timestamp g = Some b \<and> b \<le> a)
     [''2024-01-01_11-00-00.md'', ''2024-01-01_10-00-00.md''] \<and>
   contains ''beta alpha'' ''alpha''"
proof -
  have "strip ''  '' = []" by (rule strip_blank)
  with search_notes_matches [of "''  ''" utc_timestamp "two_notes\<lparr>glob_raises := Some OSError\<rparr>"]
  have 1: "search_notes utc_timestamp (two_notes\<lparr>glob_raises := Some OSError\<rparr>) ''  '' = Inr []"
    by blast
  have "strip ''ALPHA'' \<noteq> [] \<and> glob_raises two_notes = None"
    by (simp add: strip_ALPHA two_notes_entries)
  with search_notes_matches [of "''ALPHA''" utc_timestamp two_notes]
  obtain res where r: "search_notes utc_timestamp two_notes ''ALPHA'' = Inr res"
    and m: "mset res =
      mset (map fst (filter (\<lambda>(f, n). endswith f ''.md'' \<and> parse_ts utc_timestamp f \<noteq> None \<and>
        (case n of File c \<Rightarrow> contains (lower c) (lower ''ALPHA'') | Unreadable \<Rightarrow> False))
        (entries two_notes)))"
    and s: "sorted_wrt (\<lambda>f g. \<exists>a b. parse_ts utc_timestamp f = Some a \<and>
        parse_ts utc_timestamp g = Some b \<and> b \<le> a) res"
    by blast
  from r have e: "res = [''2024-01-01_11-00-00.md'', ''2024-01-01_10-00-00.md'']"
    by (simp add: two_notes_search)
  have "''beta alpha'' = ''beta '' @ ''alpha'' @ []" by simp
  then have "\<exists>pre post. ''beta alpha'' = pre @ ''alpha'' @ post" by blast
  with search_notes_matches [of _ _ _ "''beta alpha''" "''alpha''"]
  have c: "contains ''beta alpha'' ''alpha''" by blast
  from 1 r m s c show ?thesis unfolding e by blast
qed

section \<open>Capture loop\<close>

lemma collect_enter:
  "line_in r = Inr line \<Longrightarrow> strip line = [] \<Longrightarrow>
   prompt_blank_line_action (term_state r) = Inr Enter \<Longrightarrow> collect (r # rs) lines = Done lines"
  by simp

lemma collect_ctrlx:
  "line_in r = Inr line \<Longrightarrow> strip line = [] \<Longrightarrow>
   prompt_blank_line_action (term_state r) = Inr CtrlX \<Longrightarrow>
   collect (r # rs) lines = collect rs (lines @ [[]])"
  by simp

lemma collect_line:
  "line_in r = Inr line \<Longrightarrow> strip line \<noteq> [] \<Longrightarrow> collect (r # rs) lines = collect rs (lines @ [line])"
  by simp

lemma collect_interrupt:
  "line_in r = Inl e \<Longrightarrow> e = EOFError \<or> e = KeyboardInterrupt \<Longrightarrow>
   collect (r # rs) lines = Stopped lines"
  by auto

lemma collect_typed_lines:
  "\<forall>l\<in>set ns. strip l \<noteq> [] \<Longrightarrow>
   collect (map (\<lambda>l. typed l t) ns @ rs) lines = collect rs (lines @ ns)"
  by (induction ns arbitrary: lines) (simp_all add: typed_def)

lemma strip_first: "strip ''first'' = ''first''"
  by (simp add: strip_def lstrip_def rstrip_def isspace_def)

lemma strip_second: "strip ''second'' = ''second''"
  by (simp add: strip_def lstrip_def rstrip_def isspace_def)

lemma strip_first_second:
  "strip (''first'' @ [NL, NL] @ ''second'') = ''first'' @ [NL, NL] @ ''second''"
  by (rule strip_clean) (simp_all add: isspace_def)

lemma universal_newlines_first_second:
  "universal_newlines (''first'' @ [NL, NL] @ ''second'') = ''first'' @ [NL, NL] @ ''second''"
  by (rule universal_newlines_id) (simp add: CR_def NL_def)

lemma scenario_lines:
  assumes "prompt_blank_line_action tx = Inr CtrlX" "prompt_blank_line_action te = Inr Enter"
  shows "collect [typed ''first'' t1, typed [] tx, typed ''second'' t2, typed [] te] [] =
           Done [''first'', [], ''second'']"
    and "collect [typed [] tx, typed ''second'' t2, typed [] te] [''first''] =
           Done [''first'', [], ''second'']"
  using assms by (simp_all add: typed_def strip_first strip_second strip_Nil)


lemma prompt_raw_key:
  "prompt_blank_line_action (raw_key ch) = Inr (if ch = [CHR 0x18] then CtrlX else Enter)"
  by (simp add: prompt_blank_line_action_def raw_body_def raw_key_def)

text \<open>
  Claim C7. When the line read is blank and the prompt answers \<^verbatim>\<open>"enter"\<close>, the loop
  is left with the lines as they are: the blank line is not added. When the prompt
  answers \<^verbatim>\<open>"ctrlx"\<close>, one empty line is appended and collecting goes on. On a raw
  terminal where every call succeeds the key Ctrl+X (0x18) gives \<^verbatim>\<open>"ctrlx"\<close> and any
  other key \<^verbatim>\<open>"enter"\<close>. So the lines
  first, blank with Ctrl+X, second, blank with Enter, whether the first line is typed at
  the dashboard prompt or inside the loop, are saved as \<^verbatim>\<open>first\n\nsecond\n\<close> under
  the first free name of the current second, when there is one and writing raises
  nothing.
\<close>

theorem blank_line_enter_or_ctrlx:
  "(line_in r = Inr line \<and> strip line = [] \<and>
    prompt_blank_line_action (term_state r) = Inr Enter \<longrightarrow>
      collect (r # rs) lines = Done lines) \<and>
   (line_in r = Inr line \<and> strip line = [] \<and>
    prompt_blank_line_action (term_state r) = Inr CtrlX \<longrightarrow>
      collect (r # rs) lines = collect rs (lines @ [[]])) \<and>
   prompt_blank_line_action (raw_key ch) = Inr (if ch = [CHR 0x18] then CtrlX else Enter) \<and>
   (prompt_blank_line_action tx = Inr CtrlX \<and> prompt_blank_line_action te = Inr Enter \<and>
    write_raises d = None \<and> k < 1000 \<and>
    (\<forall>j<k. exists_path d (candidate (now_ts now) j)) \<and>
    \<not> exists_path d (candidate (now_ts now) k) \<longrightarrow>
      tui_loop_note d now [] [typed ''first'' t1, typed [] tx, typed ''second'' t2, typed [] te] =
        Inr (d\<lparr>entries := entries d @
               [(candidate (now_ts now) k, File (''first'' @ [NL, NL] @ ''second'' @ [NL]))]\<rparr>,
             Continue) \<and>
      tui_loop_note d now ''first'' [typed [] tx, typed ''second'' t2, typed [] te] =
        Inr (d\<lparr>entries := entries d @
               [(candidate (now_ts now) k, File (''first'' @ [NL, NL] @ ''second'' @ [NL]))]\<rparr>,
             Continue))"
proof (intro conjI impI)
  show "collect (r # rs) lines = Done lines"
    if "line_in r = Inr line \<and> strip line = [] \<and>
        prompt_blank_line_action (term_state r) = Inr Enter"
    using that by (intro collect_enter [of r line]) simp_all
  show "collect (r # rs) lines = collect rs (lines @ [[]])"
    if "line_in r = Inr line \<and> strip line = [] \<and>
        prompt_blank_line_action (term_state r) = Inr CtrlX"
    using that by (intro collect_ctrlx [of r line]) simp_all
  show "prompt_blank_line_action (raw_key ch) = Inr (if ch = [CHR 0x18] then CtrlX else Enter)"
    by (rule prompt_raw_key)
  assume h: "prompt_blank_line_action tx = Inr CtrlX \<and> prompt_blank_line_action te = Inr Enter \<and>
    write_raises d = None \<and> k < 1000 \<and>
    (\<forall>j<k. exists_path d (candidate (now_ts now) j)) \<and>
    \<not> exists_path d (candidate (now_ts now) k)"
  have j: "join [NL] [''first'', [], ''second''] = ''first'' @ [NL, NL] @ ''second''" by simp
  have "strip (''first'' @ [NL, NL] @ ''second'') \<noteq> []"
    by (simp only: strip_first_second) simp
  with h have s: "save_note d now (''first'' @ [NL, NL] @ ''second'') =
     Inr (Some (candidate (now_ts now) k),
          d\<lparr>entries := entries d @
             [(candidate (now_ts now) k, File ((''first'' @ [NL, NL] @ ''second'') @ [NL]))]\<rparr>)"
    using save_note_free [of "''first'' @ [NL, NL] @ ''second''" d k now]
    by (simp only: strip_first_second universal_newlines_first_second) simp
  from h have c1: "collect [typed ''first'' t1, typed [] tx, typed ''second'' t2, typed [] te] [] =
           Done [''first'', [], ''second'']"
    by (intro scenario_lines(1)) simp_all
  from h have c2: "collect [typed [] tx, typed ''second'' t2, typed [] te] [''first''] =
           Done [''first'', [], ''second'']"
    by (intro scenario_lines(2)) simp_all
  show "tui_loop_note d now [] [typed ''first'' t1, typed [] tx, typed ''second'' t2, typed [] te] =
        Inr (d\<lparr>entries := entries d @
               [(candidate (now_ts now) k, File (''first'' @ [NL, NL] @ ''second'' @ [NL]))]\<rparr>,
             Continue)"
    unfolding tui_loop_note_def save_lines_def using c1 j s by simp
  show "tui_loop_note d now ''first'' [typed [] tx, typed ''second'' t2, typed [] te] =
        Inr (d\<lparr>entries := entries d @
               [(candidate (now_ts now) k, File (''first'' @ [NL, NL] @ ''second'' @ [NL]))]\<rparr>,
             Continue)"
    unfolding tui_loop_note_def save_lines_def using c2 j s by simp
qed

text \<open>Enter and Ctrl+X on a raw terminal after the line first, and the scenario in the
  empty directory at 10:00:00.\<close>

theorem blank_line_enter_or_ctrlx_witness:
  "prompt_blank_line_action (raw_key [CHR 0x0D]) = Inr Enter \<and>
   prompt_blank_line_action (raw_key [CHR 0x18]) = Inr CtrlX \<and>
   collect [typed [] (raw_key [CHR 0x0D])] [''first''] = Done [''first''] \<and>
   collect [typed [] (raw_key [CHR 0x18])] [''first''] = Stopped [''first'', []] \<and>
   tui_loop_note empty_directory ten_o_clock []
     [typed ''first'' (raw_key []), typed [] (raw_key [CHR 0x18]),
      typed ''second'' (raw_key []), typed [] (raw_key [CHR 0x0D])] =
     Inr (empty_directory\<lparr>entries :=
            [(''2024-01-01_10-00-00.md'', File (''first'' @ [NL, NL] @ ''second'' @ [NL]))]\<rparr>,
          Continue) \<and>
   tui_loop_note empty_directory ten_o_clock ''first''
     [typed [] (raw_key [CHR 0x18]), typed ''second'' (raw_key []),
      typed [] (raw_key [CHR 0x0D])] =
     Inr (empty_directory\<lparr>entries :=
            [(''2024-01-01_10-00-00.md'', File (''first'' @ [NL, NL] @ ''second'' @ [NL]))]\<rparr>,
          Continue)"
proof -
  let ?e = "raw_key [CHR 0x0D]" and ?x = "raw_key [CHR 0x18]"
  from blank_line_enter_or_ctrlx [of _ _ _ _ "[CHR 0x0D]"]
  have pe: "prompt_blank_line_action ?e = Inr Enter" by simp
  from blank_line_enter_or_ctrlx [of _ _ _ _ "[CHR 0x18]"]
  have px: "prompt_blank_line_action ?x = Inr CtrlX" by simp
  have "line_in (typed [] ?e) = Inr [] \<and> strip [] = [] \<and>
      prompt_blank_line_action (term_state (typed [] ?e)) = Inr Enter"
    by (simp add: typed_def strip_Nil pe)
  with blank_line_enter_or_ctrlx [of "typed [] ?e" "[]" "[]" "[''first'']"]
  have 1: "collect [typed [] ?e] [''first''] = Done [''first'']" by blast
  have "line_in (typed [] ?x) = Inr [] \<and> strip [] = [] \<and>
      prompt_blank_line_action (term_state (typed [] ?x)) = Inr CtrlX"
    by (simp add: typed_def strip_Nil px)
  with blank_line_enter_or_ctrlx [of "typed [] ?x" "[]" "[]" "[''first'']"]
  have "collect [typed [] ?x] [''first''] = collect [] ([''first''] @ [[]])" by blast
  then have 2: "collect [typed [] ?x] [''first''] = Stopped [''first'', []]" by simp
  have h: "prompt_blank_line_action ?x = Inr CtrlX \<and> prompt_blank_line_action ?e = Inr Enter \<and>
      write_raises empty_directory = None \<and> (0::nat) < 1000 \<and>
      (\<forall>j<0. exists_path empty_directory (candidate (now_ts ten_o_clock) j)) \<and>
      \<not> exists_path empty_directory (candidate (now_ts ten_o_clock) 0)"
    by (simp add: px pe empty_directory_fields empty_directory_free)
  note t = blank_line_enter_or_ctrlx [of _ _ _ _ _ ?x ?e empty_directory 0 ten_o_clock
      "raw_key []" "raw_key []"]
  from t h have 3: "tui_loop_note empty_directory ten_o_clock []
     [typed ''first'' (raw_key []), typed [] ?x, typed ''second'' (raw_key []), typed [] ?e] =
     Inr (empty_directory\<lparr>entries := entries empty_directory @
            [(candidate (now_ts ten_o_clock) 0, File (''first'' @ [NL, NL] @ ''second'' @ [NL]))]\<rparr>,
          Continue)"
    by blast
  from t h have 4: "tui_loop_note empty_directory ten_o_clock ''first''
     [typed [] ?x, typed ''second'' (raw_key []), typed [] ?e] =
     Inr (empty_directory\<lparr>entries := entries empty_directory @
            [(candidate (now_ts ten_o_clock) 0, File (''first'' @ [NL, NL] @ ''second'' @ [NL]))]\<rparr>,
          Continue)"
    by blast
  from pe px 1 2 3 4 show ?thesis
    by (simp add: empty_directory_fields ten_now candidate_ten_0)
qed

lemma save_lines_blank:
  "strip (join [NL] ls) = [] \<Longrightarrow> save_lines d now ls ctl = Inr (d, ctl)"
  by (simp add: save_lines_def save_note_blank)

lemma save_lines_free:
  assumes "strip (join [NL] ls) \<noteq> []" "write_raises d = None" "k < 1000"
    and "\<forall>j<k. exists_path d (candidate (now_ts now) j)"
    and "\<not> exists_path d (candidate (now_ts now) k)"
  shows "save_lines d now ls ctl =
     Inr (d\<lparr>entries := entries d @
            [(candidate (now_ts now) k,
              File (universal_newlines (strip (join [NL] ls)) @ [NL]))]\<rparr>, ctl)"
proof -
  from assms(1) have "ls \<noteq> []" using strip_Nil by auto
  with save_note_free [OF assms] show ?thesis by (simp add: save_lines_def)
qed

lemma save_lines_full:
  assumes "strip (join [NL] ls) \<noteq> []" "\<forall>j<1000. exists_path d (candidate (now_ts now) j)"
  shows "save_lines d now ls ctl = Inl RuntimeError"
proof -
  from assms(1) have "ls \<noteq> []" using strip_Nil by auto
  with save_note_full [OF assms] show ?thesis by (simp add: save_lines_def)
qed

lemma strip_a: "strip ''a'' = ''a''"
  by (simp add: strip_def lstrip_def rstrip_def isspace_def)

lemma strip_b: "strip ''b'' = ''b''"
  by (simp add: strip_def lstrip_def rstrip_def isspace_def)

lemma strip_a_b: "strip (''a'' @ [NL] @ ''b'') = ''a'' @ [NL] @ ''b''"
  by (rule strip_clean) (simp_all add: isspace_def)

lemma universal_newlines_a_b:
  "universal_newlines (''a'' @ [NL] @ ''b'') = ''a'' @ [NL] @ ''b''"
  by (rule universal_newlines_id) (simp add: CR_def NL_def)

lemma join_a_b: "join [NL] [''a'', ''b''] = ''a'' @ [NL] @ ''b''"
  by simp

lemma collect_ctrlx_end: "collect [typed [] (raw_key [CHR 0x18])] [] = Stopped [[]]"
  by (simp add: typed_def strip_Nil prompt_raw_key)

text \<open>
  Claim C8, amended. During collection the end of input, an \<^verbatim>\<open>EOFError\<close> or a
  \<^verbatim>\<open>KeyboardInterrupt\<close> from \<^verbatim>\<open>input()\<close> stops the loop with the lines accumulated so
  far, in particular with all non-blank lines typed before it. Then the outer loop is
  left. When the accumulated lines joined by newlines are blank, which they are when
  no line was accumulated and when only empty lines were kept, the directory is
  unchanged: no draft is saved. When they are not blank, the draft is saved before the
  loop is left: with a free name among the 1000 candidate names of the current
  timestamp and a write that raises nothing, the directory has one new file under the
  first free name, which reads as the trimmed joined lines followed by one newline;
  with all 1000 names taken the too-many-versions error leaves the loop body and the
  draft is not saved.
\<close>

theorem interrupted_capture_saves_draft:
  "collect [] lines = Stopped lines \<and>
   (line_in r = Inl e \<and> (e = EOFError \<or> e = KeyboardInterrupt) \<longrightarrow>
      collect (r # rs) lines = Stopped lines) \<and>
   ((\<forall>l\<in>set ns. strip l \<noteq> []) \<and> line_in r = Inl e \<and> (e = EOFError \<or> e = KeyboardInterrupt) \<longrightarrow>
      collect (map (\<lambda>l. typed l t) ns @ r # rs) lines = Stopped (lines @ ns)) \<and>
   (collect rounds (if cmd \<noteq> [] then [cmd] else []) = Stopped ls \<and>
    strip (join [NL] ls) = [] \<longrightarrow>
      tui_loop_note d now cmd rounds = Inr (d, Break)) \<and>
   (collect rounds (if cmd \<noteq> [] then [cmd] else []) = Stopped ls \<and>
    strip (join [NL] ls) \<noteq> [] \<and> write_raises d = None \<and> k < 1000 \<and>
    (\<forall>j<k. exists_path d (candidate (now_ts now) j)) \<and>
    \<not> exists_path d (candidate (now_ts now) k) \<longrightarrow>
      tui_loop_note d now cmd rounds =
        Inr (d\<lparr>entries := entries d @
               [(candidate (now_ts now) k,
                 File (universal_newlines (strip (join [NL] ls)) @ [NL]))]\<rparr>,
             Break)) \<and>
   (collect rounds (if cmd \<noteq> [] then [cmd] else []) = Stopped ls \<and>
    strip (join [NL] ls) \<noteq> [] \<and> (\<forall>j<1000. exists_path d (candidate (now_ts now) j)) \<longrightarrow>
      tui_loop_note d now cmd rounds = Inl RuntimeError)"
proof (intro conjI impI)
  show "collect [] lines = Stopped lines" by simp
  show "collect (r # rs) lines = Stopped lines"
    if "line_in r = Inl e \<and> (e = EOFError \<or> e = KeyboardInterrupt)"
    using that by (intro collect_interrupt [of r e]) simp_all
  show "collect (map (\<lambda>l. typed l t) ns @ r # rs) lines = Stopped (lines @ ns)"
    if h: "(\<forall>l\<in>set ns. strip l \<noteq> []) \<and> line_in r = Inl e \<and> (e = EOFError \<or> e = KeyboardInterrupt)"
  proof -
    from h have "collect (map (\<lambda>l. typed l t) ns @ r # rs) lines = collect (r # rs) (lines @ ns)"
      by (intro collect_typed_lines) simp
    also from h have "\<dots> = Stopped (lines @ ns)"
      by (intro collect_interrupt [of r e]) simp_all
    finally show ?thesis .
  qed
  show "tui_loop_note d now cmd rounds = Inr (d, Break)"
    if "collect rounds (if cmd \<noteq> [] then [cmd] else []) = Stopped ls \<and>
        strip (join [NL] ls) = []"
    using that by (simp add: tui_loop_note_def save_lines_blank)
  show "tui_loop_note d now cmd rounds =
        Inr (d\<lparr>entries := entries d @
               [(candidate (now_ts now) k,
                 File (universal_newlines (strip (join [NL] ls)) @ [NL]))]\<rparr>,
             Break)"
    if h: "collect rounds (if cmd \<noteq> [] then [cmd] else []) = Stopped ls \<and>
        strip (join [NL] ls) \<noteq> [] \<and> write_raises d = None \<and> k < 1000 \<and>
        (\<forall>j<k. exists_path d (candidate (now_ts now) j)) \<and>
        \<not> exists_path d (candidate (now_ts now) k)"
  proof -
    from h have "save_lines d now ls Break =
        Inr (d\<lparr>entries := entries d @
               [(candidate (now_ts now) k,
                 File (universal_newlines (strip (join [NL] ls)) @ [NL]))]\<rparr>,
             Break)"
      by (intro save_lines_free) simp_all
    with h show ?thesis by (simp add: tui_loop_note_def)
  qed
  show "tui_loop_note d now cmd rounds = Inl RuntimeError"
    if h: "collect rounds (if cmd \<noteq> [] then [cmd] else []) = Stopped ls \<and>
        strip (join [NL] ls) \<noteq> [] \<and> (\<forall>j<1000. exists_path d (candidate (now_ts now) j))"
  proof -
    from h have "save_lines d now ls Break = Inl RuntimeError"
      by (intro save_lines_full) simp_all
    with h show ?thesis by (simp add: tui_loop_note_def)
  qed
qed

text \<open>The claim as it was stated has the draft saved whenever a line was accumulated.
  With an empty command line, then a blank line kept with Ctrl+X, then the end of
  input, one line is accumulated, the empty one, and nothing is saved.\<close>

theorem interrupted_capture_saves_draft_counterexample:
  "collect [typed [] (raw_key [CHR 0x18])] [] = Stopped [[]] \<and>
   tui_loop_note empty_directory ten_o_clock [] [typed [] (raw_key [CHR 0x18])] =
     Inr (empty_directory, Break)"
proof -
  have "tui_loop_note empty_directory ten_o_clock [] [typed [] (raw_key [CHR 0x18])] =
      save_lines empty_directory ten_o_clock [[]] Break"
    by (simp add: tui_loop_note_def collect_ctrlx_end del: collect.simps)
  also have "\<dots> = Inr (empty_directory, Break)"
    by (rule save_lines_blank) (simp add: strip_Nil)
  finally show ?thesis using collect_ctrlx_end by simp
qed

text \<open>An interrupt after one line, the end of input after two lines, the draft saved
  from them, an interrupt before any line, the end of input after one empty line, and
  the draft that is lost in the full directory.\<close>

theorem interrupted_capture_saves_draft_witness:
  "collect [\<lparr> line_in = Inl KeyboardInterrupt, term_state = raw_key [] \<rparr>] [''a''] = Stopped [''a''] \<and>
   collect [typed ''a'' (raw_key []), typed ''b'' (raw_key []),
            \<lparr> line_in = Inl EOFError, term_state = raw_key [] \<rparr>] [] = Stopped [''a'', ''b''] \<and>
   tui_loop_note empty_directory ten_o_clock ''a''
     [typed ''b'' (raw_key []), \<lparr> line_in = Inl EOFError, term_state = raw_key [] \<rparr>] =
     Inr (empty_directory\<lparr>entries :=
            [(''2024-01-01_10-00-00.md'', File (''a'' @ [NL] @ ''b'' @ [NL]))]\<rparr>, Break) \<and>
   tui_loop_note empty_directory ten_o_clock []
     [\<lparr> line_in = Inl KeyboardInterrupt, term_state = raw_key [] \<rparr>] =
     Inr (empty_directory, Break) \<and>
   tui_loop_note empty_directory ten_o_clock [] [typed [] (raw_key [CHR 0x18])] =
     Inr (empty_directory, Break) \<and>
   tui_loop_note full_directory ten_o_clock ''a''
     [typed ''b'' (raw_key []), \<lparr> line_in = Inl EOFError, term_state = raw_key [] \<rparr>] =
     Inl RuntimeError"
proof -
  let ?eof = "\<lparr> line_in = Inl EOFError, term_state = raw_key [] \<rparr>"
  let ?int = "\<lparr> line_in = Inl KeyboardInterrupt, term_state = raw_key [] \<rparr>"
  have "line_in ?int = Inl KeyboardInterrupt \<and>
      (KeyboardInterrupt = EOFError \<or> KeyboardInterrupt = KeyboardInterrupt)" by simp
  with interrupted_capture_saves_draft [of _ ?int KeyboardInterrupt "[]"]
  have i: "collect [?int] lines = Stopped lines" for lines by blast
  have "(\<forall>l\<in>set [''a'', ''b'']. strip l \<noteq> []) \<and> line_in ?eof = Inl EOFError \<and>
      (EOFError = EOFError \<or> EOFError = KeyboardInterrupt)"
    by (simp add: strip_a strip_b)
  with interrupted_capture_saves_draft [of _ ?eof EOFError "[]" "[''a'', ''b'']" "raw_key []"]
  have "collect (map (\<lambda>l. typed l (raw_key [])) [''a'', ''b''] @ [?eof]) lines =
      Stopped (lines @ [''a'', ''b''])" for lines
    by blast
  then have c: "collect [typed ''a'' (raw_key []), typed ''b'' (raw_key []), ?eof] lines =
      Stopped (lines @ [''a'', ''b''])" for lines
    by simp
  have "(\<forall>l\<in>set [''b'']. strip l \<noteq> []) \<and> line_in ?eof = Inl EOFError \<and>
      (EOFError = EOFError \<or> EOFError = KeyboardInterrupt)"
    by (simp add: strip_b)
  with interrupted_capture_saves_draft [of _ ?eof EOFError "[]" "[''b'']" "raw_key []"]
  have "collect (map (\<lambda>l. typed l (raw_key [])) [''b''] @ [?eof]) [''a''] =
      Stopped ([''a''] @ [''b''])"
    by blast
  then have ab: "collect [typed ''b'' (raw_key []), ?eof] (if ''a'' \<noteq> [] then [''a''] else []) =
      Stopped [''a'', ''b'']"
    by simp
  have nb: "strip (join [NL] [''a'', ''b'']) \<noteq> []"
    by (simp only: join_a_b strip_a_b) simp
  have "write_raises empty_directory = None \<and> (0::nat) < 1000 \<and>
      (\<forall>j<0. exists_path empty_directory (candidate (now_ts ten_o_clock) j)) \<and>
      \<not> exists_path empty_directory (candidate (now_ts ten_o_clock) 0)"
    by (simp add: empty_directory_fields empty_directory_free)
  with ab nb interrupted_capture_saves_draft [of _ _ _ _ _ _
      "[typed ''b'' (raw_key []), ?eof]" "''a''" "[''a'', ''b'']" empty_directory ten_o_clock 0]
  have "tui_loop_note empty_directory ten_o_clock ''a'' [typed ''b'' (raw_key []), ?eof] =
      Inr (empty_directory\<lparr>entries := entries empty_directory @
             [(candidate (now_ts ten_o_clock) 0,
               File (universal_newlines (strip (join [NL] [''a'', ''b''])) @ [NL]))]\<rparr>,
           Break)"
    by blast
  then have s: "tui_loop_note empty_directory ten_o_clock ''a'' [typed ''b'' (raw_key []), ?eof] =
      Inr (empty_directory\<lparr>entries :=
            [(''2024-01-01_10-00-00.md'', File (''a'' @ [NL] @ ''b'' @ [NL]))]\<rparr>, Break)"
    by (simp only: join_a_b strip_a_b universal_newlines_a_b)
       (simp add: empty_directory_fields ten_now candidate_ten_0)
  from i [of "[]"] have "collect [?int] (if ([]::string) \<noteq> [] then [[]] else []) = Stopped [] \<and>
      strip (join [NL] []) = []"
    by (simp add: strip_Nil)
  with interrupted_capture_saves_draft [of _ _ _ _ _ _ "[?int]" "[]" "[]" empty_directory ten_o_clock]
  have n: "tui_loop_note empty_directory ten_o_clock [] [?int] = Inr (empty_directory, Break)"
    by blast
  have "collect [typed [] (raw_key [CHR 0x18])] (if ([]::string) \<noteq> [] then [[]] else []) =
      Stopped [[]] \<and> strip (join [NL] [[]]) = []"
    by (simp add: collect_ctrlx_end strip_Nil del: collect.simps)
  with interrupted_capture_saves_draft [of _ _ _ _ _ _ "[typed [] (raw_key [CHR 0x18])]" "[]"
      "[[]]" empty_directory ten_o_clock]
  have x: "tui_loop_note empty_directory ten_o_clock [] [typed [] (raw_key [CHR 0x18])] =
      Inr (empty_directory, Break)"
    by blast
  have "\<forall>j<1000. exists_path full_directory (candidate (now_ts ten_o_clock) j)"
    by (simp add: ten_now full_directory_taken)
  with ab nb interrupted_capture_saves_draft [of _ _ _ _ _ _
      "[typed ''b'' (raw_key []), ?eof]" "''a''" "[''a'', ''b'']" full_directory ten_o_clock]
  have f: "tui_loop_note full_directory ten_o_clock ''a'' [typed ''b'' (raw_key []), ?eof] =
      Inl RuntimeError"
    by blast
  from i [of "[''a'']"] c [of "[]"] s n x f show ?thesis by simp
qed

lemma prompt_fallback_returns:
  "\<not> HAS_TERMIOS t \<Longrightarrow> input_result t = Inl e \<Longrightarrow> e = EOFError \<or> e = KeyboardInterrupt \<Longrightarrow>
   prompt_blank_line_action t = Inr Enter"
  by (auto simp: prompt_blank_line_action_def)

lemma prompt_raw_handled:
  "HAS_TERMIOS t \<Longrightarrow> tcgetattr_raises t = None \<Longrightarrow> tcsetattr_raises t = None \<Longrightarrow>
   raw_body t = Inl e \<Longrightarrow> is_OSError e \<or> e = TermiosError \<Longrightarrow>
   prompt_blank_line_action t = Inr Enter"
  by (auto simp: prompt_blank_line_action_def)

lemma prompt_tcgetattr_escapes:
  "HAS_TERMIOS t \<Longrightarrow> tcgetattr_raises t = Some e \<Longrightarrow> prompt_blank_line_action t = Inl e"
  by (simp add: prompt_blank_line_action_def)


lemma lower_strip_X: "lower (strip '' X '') = ''x''"
proof -
  have "strip '' X '' = ''X''"
    by (simp add: strip_def lstrip_def rstrip_def isspace_def)
  then show ?thesis
    by (simp add: lower_def lower_char_def char_of_def bit_Suc_0_iff)
qed

lemma prompt_line_based:
  "prompt_blank_line_action (line_prompt (Inl EOFError)) = Inr Enter"
  "prompt_blank_line_action (line_prompt (Inl KeyboardInterrupt)) = Inr Enter"
  "prompt_blank_line_action (line_prompt (Inr [])) = Inr Enter"
  "prompt_blank_line_action (line_prompt (Inr '' X '')) = Inr CtrlX"
  by (simp_all add: prompt_blank_line_action_def line_prompt_def lower_strip_X)
    (simp add: strip_Nil lower_def)

text \<open>
  Claim C10 has the prompt always return one of its two outcomes, every input failure
  giving confirm. That holds of the line-based fallback and of an \<^verbatim>\<open>OSError\<close> or
  \<^verbatim>\<open>termios.error\<close> raised inside the \<^verbatim>\<open>try\<close> of the raw branch. It fails where
  standard input is not a terminal: \<^verbatim>\<open>termios.tcgetattr\<close> runs before the \<^verbatim>\<open>try\<close>, so
  its \<^verbatim>\<open>termios.error\<close> leaves \<^verbatim>\<open>prompt_blank_line_action\<close> instead of becoming
  \<^verbatim>\<open>"enter"\<close>; the handler of the capture loop does not catch it either, and the line
  typed before the blank line is not saved.
\<close>

theorem prompt_not_a_tty_raises:
  "prompt_blank_line_action not_a_tty = Inl TermiosError \<and>
   collect [typed [] not_a_tty] [''first''] = Raised TermiosError \<and>
   tui_loop_note d now ''first'' [typed [] not_a_tty] = Inl TermiosError"
proof -
  have p: "prompt_blank_line_action not_a_tty = Inl TermiosError"
    by (simp add: prompt_blank_line_action_def not_a_tty_def)
  then have c: "collect [typed [] not_a_tty] [''first''] = Raised TermiosError"
    by (simp add: typed_def strip_Nil)
  then have "tui_loop_note d now ''first'' [typed [] not_a_tty] = Inl TermiosError"
    by (simp add: tui_loop_note_def)
  with p c show ?thesis by simp
qed

end
